theory Spec2Isabelle
  imports Main "HOL-Library.Sublist"
begin

section \<open>Python strings and dictionaries\<close>

text \<open>
  A Python \<^verbatim>\<open>str\<close> is modelled as a \<^typ>\<open>string\<close>; one \<^typ>\<open>char\<close> stands for one
  code point below 256.  On that range \<^verbatim>\<open>str.lower\<close> maps the letters A-Z and the
  Latin-1 capitals (192-214, 216-222) to the code point 32 above and leaves everything
  else alone, and \<^verbatim>\<open>str.isspace\<close> holds for 9-13, 28-32, 133 and 160.
\<close>

definition lower_char :: "char \<Rightarrow> char" where
  "lower_char c =
     (let n = (of_char c :: nat)
      in if (65 \<le> n \<and> n \<le> 90) \<or> (192 \<le> n \<and> n \<le> 214) \<or> (216 \<le> n \<and> n \<le> 222)
         then char_of (n + 32) else c)"

definition lower :: "string \<Rightarrow> string" where
  "lower s = map lower_char s"

definition isspace :: "char \<Rightarrow> bool" where
  "isspace c =
     (let n = (of_char c :: nat)
      in (9 \<le> n \<and> n \<le> 13) \<or> (28 \<le> n \<and> n \<le> 32) \<or> n = 133 \<or> n = 160)"

definition strip :: "string \<Rightarrow> string" where
  "strip s = rev (dropWhile isspace (rev (dropWhile isspace s)))"

text \<open>\<^verbatim>\<open>needle in hay\<close> on strings: \<open>startswith\<close> compares at the front, \<open>str_in\<close>
  tries every position from left to right.\<close>

fun startswith :: "string \<Rightarrow> string \<Rightarrow> bool" where
  "startswith [] hay = True"
| "startswith (c # cs) [] = False"
| "startswith (c # cs) (h # hs) = (c = h \<and> startswith cs hs)"

fun str_in :: "string \<Rightarrow> string \<Rightarrow> bool" where
  "str_in needle [] = (needle = [])"
| "str_in needle (h # hs) = (startswith needle (h # hs) \<or> str_in needle hs)"

text \<open>
  A dict literal is evaluated entry by entry.  Storing under a key that is already
  present replaces the value and keeps the key at the position of its first insertion;
  a new key goes to the end.  \<^verbatim>\<open>items()\<close> iterates in that order.
\<close>

fun dict_setitem :: "('k \<times> 'v) list \<Rightarrow> 'k \<Rightarrow> 'v \<Rightarrow> ('k \<times> 'v) list" where
  "dict_setitem [] k v = [(k, v)]"
| "dict_setitem ((k', v') # d) k v =
     (if k' = k then (k, v) # d else (k', v') # dict_setitem d k v)"

definition dict_literal :: "('k \<times> 'v) list \<Rightarrow> ('k \<times> 'v) list" where
  "dict_literal entries = foldl (\<lambda>d (k, v). dict_setitem d k v) [] entries"

text \<open>The value a dict literal ends up holding for key \<open>k\<close>: the last one written
  (\<open>acc\<close> while none has been seen).\<close>

fun last_value :: "'k \<Rightarrow> ('k \<times> 'v) list \<Rightarrow> 'v option \<Rightarrow> 'v option" where
  "last_value k [] acc = acc"
| "last_value k ((k', v) # entries) acc = last_value k entries (if k' = k then Some v else acc)"

section \<open>nz_locations.py\<close>

definition REGIONS :: "string list" where
  "REGIONS =
   [''Auckland'', ''Wellington'', ''Christchurch'', ''Hamilton'', ''Tauranga'', ''Dunedin'',
    ''Queenstown'', ''Palmerston North'', ''Napier-Hastings'', ''Nelson'', ''Rotorua'',
    ''New Plymouth'', ''Whangarei'', ''Invercargill'', ''Whanganui'', ''Gisborne'',
    ''Blenheim'', ''Timaru'', ''Other NZ'', ''Remote / Work from Home'']"

text \<open>The entries of the \<^verbatim>\<open>LOCATION_MAPPING\<close> literal, in the order they are written.\<close>

definition LOCATION_MAPPING_entries :: "(string \<times> string) list" where
  "LOCATION_MAPPING_entries =
   [(''Auckland'', ''Auckland''),
    (''CBD'', ''Auckland''),
    (''North Shore'', ''Auckland''),
    (''Takapuna'', ''Auckland''),
    (''Albany'', ''Auckland''),
    (''Orewa'', ''Auckland''),
    (''Hibiscus Coast'', ''Auckland''),
    (''Silverdale'', ''Auckland''),
    (''Devonport'', ''Auckland''),
    (''Birkenhead'', ''Auckland''),
    (''Glenfield'', ''Auckland''),
    (''Browns Bay'', ''Auckland''),
    (''Milford'', ''Auckland''),
    (''East Auckland'', ''Auckland''),
    (''Howick'', ''Auckland''),
    (''Pakuranga'', ''Auckland''),
    (''Botany'', ''Auckland''),
    (''Manukau'', ''Auckland''),
    (''Papatoetoe'', ''Auckland''),
    (''Otahuhu'', ''Auckland''),
    (''Mangere'', ''Auckland''),
    (''Otara'', ''Auckland''),
    (''Flat Bush'', ''Auckland''),
    (''South Auckland'', ''Auckland''),
    (''Papakura'', ''Auckland''),
    (''Takanini'', ''Auckland''),
    (''Drury'', ''Auckland''),
    (''Pukekohe'', ''Auckland''),
    (''Waiuku'', ''Auckland''),
    (''Franklin'', ''Auckland''),
    (''West Auckland'', ''Auckland''),
    (''Henderson'', ''Auckland''),
    (''Te Atatu'', ''Auckland''),
    (''Glen Eden'', ''Auckland''),
    (''New Lynn'', ''Auckland''),
    (''Avondale'', ''Auckland''),
    (''Mt Albert'', ''Auckland''),
    (''Pt Chevalier'', ''Auckland''),
    (''Grey Lynn'', ''Auckland''),
    (''Ponsonby'', ''Auckland''),
    (''Parnell'', ''Auckland''),
    (''Newmarket'', ''Auckland''),
    (''Remuera'', ''Auckland''),
    (''Epsom'', ''Auckland''),
    (''Mt Eden'', ''Auckland''),
    (''Grafton'', ''Auckland''),
    (''Penrose'', ''Auckland''),
    (''Onehunga'', ''Auckland''),
    (''Ellerslie'', ''Auckland''),
    (''Greenlane'', ''Auckland''),
    (''Mt Wellington'', ''Auckland''),
    (''Panmure'', ''Auckland''),
    (''Glen Innes'', ''Auckland''),
    (''St Heliers'', ''Auckland''),
    (''Mission Bay'', ''Auckland''),
    (''Kohimarama'', ''Auckland''),
    (''Meadowbank'', ''Auckland''),
    (''Orakei'', ''Auckland''),
    (''Waitakere'', ''Auckland''),
    (''Kumeu'', ''Auckland''),
    (''Helensville'', ''Auckland''),
    (''Whangaparaoa'', ''Auckland''),
    (''Rodney'', ''Auckland''),
    (''Warkworth'', ''Auckland''),
    (''Wellington'', ''Wellington''),
    (''Lower Hutt'', ''Wellington''),
    (''Upper Hutt'', ''Wellington''),
    (''Hutt Valley'', ''Wellington''),
    (''Porirua'', ''Wellington''),
    (''Kapiti'', ''Wellington''),
    (''Paraparaumu'', ''Wellington''),
    (''Waikanae'', ''Wellington''),
    (''Petone'', ''Wellington''),
    (''Eastbourne'', ''Wellington''),
    (''Wainuiomata'', ''Wellington''),
    (''Miramar'', ''Wellington''),
    (''Kilbirnie'', ''Wellington''),
    (''Lyall Bay'', ''Wellington''),
    (''Island Bay'', ''Wellington''),
    (''Newtown'', ''Wellington''),
    (''Mt Victoria'', ''Wellington''),
    (''Te Aro'', ''Wellington''),
    (''Thorndon'', ''Wellington''),
    (''Kelburn'', ''Wellington''),
    (''Karori'', ''Wellington''),
    (''Johnsonville'', ''Wellington''),
    (''Tawa'', ''Wellington''),
    (''Churton Park'', ''Wellington''),
    (''Khandallah'', ''Wellington''),
    (''Ngaio'', ''Wellington''),
    (''Wadestown'', ''Wellington''),
    (''Brooklyn'', ''Wellington''),
    (''Mornington'', ''Wellington''),
    (''Berhampore'', ''Wellington''),
    (''Seatoun'', ''Wellington''),
    (''Strathmore'', ''Wellington''),
    (''Hataitai'', ''Wellington''),
    (''Masterton'', ''Wellington''),
    (''Carterton'', ''Wellington''),
    (''Greytown'', ''Wellington''),
    (''Featherston'', ''Wellington''),
    (''Wairarapa'', ''Wellington''),
    (''Christchurch'', ''Christchurch''),
    (''Canterbury'', ''Christchurch''),
    (''Addington'', ''Christchurch''),
    (''Riccarton'', ''Christchurch''),
    (''Ilam'', ''Christchurch''),
    (''Fendalton'', ''Christchurch''),
    (''Merivale'', ''Christchurch''),
    (''Papanui'', ''Christchurch''),
    (''Bishopdale'', ''Christchurch''),
    (''Burnside'', ''Christchurch''),
    (''Avonhead'', ''Christchurch''),
    (''Hornby'', ''Christchurch''),
    (''Sockburn'', ''Christchurch''),
    (''Wigram'', ''Christchurch''),
    (''Halswell'', ''Christchurch''),
    (''Spreydon'', ''Christchurch''),
    (''Sydenham'', ''Christchurch''),
    (''Cashmere'', ''Christchurch''),
    (''St Martins'', ''Christchurch''),
    (''Opawa'', ''Christchurch''),
    (''Woolston'', ''Christchurch''),
    (''Ferrymead'', ''Christchurch''),
    (''Sumner'', ''Christchurch''),
    (''Lyttelton'', ''Christchurch''),
    (''Linwood'', ''Christchurch''),
    (''Phillipstown'', ''Christchurch''),
    (''Waltham'', ''Christchurch''),
    (''St Albans'', ''Christchurch''),
    (''Edgeware'', ''Christchurch''),
    (''Mairehau'', ''Christchurch''),
    (''Shirley'', ''Christchurch''),
    (''Richmond'', ''Christchurch''),
    (''Avonside'', ''Christchurch''),
    (''Dallington'', ''Christchurch''),
    (''Burwood'', ''Christchurch''),
    (''Parklands'', ''Christchurch''),
    (''New Brighton'', ''Christchurch''),
    (''Kaiapoi'', ''Christchurch''),
    (''Rangiora'', ''Christchurch''),
    (''Rolleston'', ''Christchurch''),
    (''Lincoln'', ''Christchurch''),
    (''Prebbleton'', ''Christchurch''),
    (''Selwyn'', ''Christchurch''),
    (''Waimakariri'', ''Christchurch''),
    (''Belfast'', ''Christchurch''),
    (''Northwood'', ''Christchurch''),
    (''Redwood'', ''Christchurch''),
    (''Harewood'', ''Christchurch''),
    (''Russley'', ''Christchurch''),
    (''Yaldhurst'', ''Christchurch''),
    (''Templeton'', ''Christchurch''),
    (''Ashburton'', ''Christchurch''),
    (''Hamilton'', ''Hamilton''),
    (''Waikato'', ''Hamilton''),
    (''Cambridge'', ''Hamilton''),
    (''Te Awamutu'', ''Hamilton''),
    (''Morrinsville'', ''Hamilton''),
    (''Matamata'', ''Hamilton''),
    (''Ngaruawahia'', ''Hamilton''),
    (''Huntly'', ''Hamilton''),
    (''Raglan'', ''Hamilton''),
    (''Frankton'', ''Hamilton''),
    (''Claudelands'', ''Hamilton''),
    (''Hamilton East'', ''Hamilton''),
    (''Hamilton Central'', ''Hamilton''),
    (''Hillcrest'', ''Hamilton''),
    (''Rototuna'', ''Hamilton''),
    (''Te Rapa'', ''Hamilton''),
    (''Dinsdale'', ''Hamilton''),
    (''Tauranga'', ''Tauranga''),
    (''Bay of Plenty'', ''Tauranga''),
    (''Mt Maunganui'', ''Tauranga''),
    (''Mount Maunganui'', ''Tauranga''),
    (''Papamoa'', ''Tauranga''),
    (''Te Puke'', ''Tauranga''),
    (''Whakatane'', ''Tauranga''),
    (''Katikati'', ''Tauranga''),
    (''Omokoroa'', ''Tauranga''),
    (''Bethlehem'', ''Tauranga''),
    (''Greerton'', ''Tauranga''),
    (''Pyes Pa'', ''Tauranga''),
    (''Welcome Bay'', ''Tauranga''),
    (''Dunedin'', ''Dunedin''),
    (''Otago'', ''Dunedin''),
    (''Mosgiel'', ''Dunedin''),
    (''Port Chalmers'', ''Dunedin''),
    (''St Kilda'', ''Dunedin''),
    (''South Dunedin'', ''Dunedin''),
    (''North Dunedin'', ''Dunedin''),
    (''Oamaru'', ''Dunedin''),
    (''Balclutha'', ''Dunedin''),
    (''Alexandra'', ''Dunedin''),
    (''Cromwell'', ''Dunedin''),
    (''Central Otago'', ''Dunedin''),
    (''Queenstown'', ''Queenstown''),
    (''Arrowtown'', ''Queenstown''),
    (''Frankton'', ''Queenstown''),
    (''Wanaka'', ''Queenstown''),
    (''Queenstown-Lakes'', ''Queenstown''),
    (''Palmerston North'', ''Palmerston North''),
    (''Manawatu'', ''Palmerston North''),
    (''Feilding'', ''Palmerston North''),
    (''Levin'', ''Palmerston North''),
    (''Horowhenua'', ''Palmerston North''),
    (''Napier'', ''Napier-Hastings''),
    (''Hastings'', ''Napier-Hastings''),
    (''Hawke'' @ [CHR 0x27] @ ''s Bay'', ''Napier-Hastings''),
    (''Hawkes Bay'', ''Napier-Hastings''),
    (''Havelock North'', ''Napier-Hastings''),
    (''Taradale'', ''Napier-Hastings''),
    (''Flaxmere'', ''Napier-Hastings''),
    (''Nelson'', ''Nelson''),
    (''Tasman'', ''Nelson''),
    (''Richmond'', ''Nelson''),
    (''Motueka'', ''Nelson''),
    (''Stoke'', ''Nelson''),
    (''Rotorua'', ''Rotorua''),
    (''Lakes'', ''Rotorua''),
    (''Taupo'', ''Rotorua''),
    (''New Plymouth'', ''New Plymouth''),
    (''Taranaki'', ''New Plymouth''),
    (''Stratford'', ''New Plymouth''),
    (''Hawera'', ''New Plymouth''),
    (''Inglewood'', ''New Plymouth''),
    (''Waitara'', ''New Plymouth''),
    (''Whangarei'', ''Whangarei''),
    (''Northland'', ''Whangarei''),
    (''Kerikeri'', ''Whangarei''),
    (''Paihia'', ''Whangarei''),
    (''Kaitaia'', ''Whangarei''),
    (''Dargaville'', ''Whangarei''),
    (''Invercargill'', ''Invercargill''),
    (''Southland'', ''Invercargill''),
    (''Gore'', ''Invercargill''),
    (''Te Anau'', ''Invercargill''),
    (''Whanganui'', ''Whanganui''),
    (''Wanganui'', ''Whanganui''),
    (''Gisborne'', ''Gisborne''),
    (''East Coast'', ''Gisborne''),
    (''Blenheim'', ''Blenheim''),
    (''Marlborough'', ''Blenheim''),
    (''Picton'', ''Blenheim''),
    (''Timaru'', ''Timaru''),
    (''South Canterbury'', ''Timaru''),
    (''Remote'', ''Remote / Work from Home''),
    (''Work from Home'', ''Remote / Work from Home''),
    (''WFH'', ''Remote / Work from Home''),
    (''Anywhere'', ''Remote / Work from Home''),
    (''New Zealand'', ''Remote / Work from Home''),
    (''NZ Wide'', ''Remote / Work from Home'')]"

definition LOCATION_MAPPING :: "(string \<times> string) list" where
  "LOCATION_MAPPING = dict_literal LOCATION_MAPPING_entries"

text \<open>
  \<^verbatim>\<open>get_region(location)\<close>; the argument may be \<^verbatim>\<open>None\<close>.  The first loop returns at the
  first keyword found in the lowered and stripped location, the second at the first
  region name found there, and the fall-through is \<^verbatim>\<open>"Other NZ"\<close>.
\<close>

definition get_region :: "string option \<Rightarrow> string" where
  "get_region location =
     (case location of
        None \<Rightarrow> ''Other NZ''
      | Some loc \<Rightarrow>
          if loc = [] then ''Other NZ''
          else
            let location_lower = strip (lower loc)
            in case find (\<lambda>(keyword, region). str_in (lower keyword) location_lower)
                         LOCATION_MAPPING of
                 Some (keyword, region) \<Rightarrow> region
               | None \<Rightarrow>
                   (case find (\<lambda>region. str_in (lower region) location_lower) REGIONS of
                      Some region \<Rightarrow> region
                    | None \<Rightarrow> ''Other NZ''))"


text \<open>
  The region rule in the words of the specification: the first table entry whose
  lowercased keyword occurs in the lowercased location, else the first canonical region
  name that occurs in the location, else the sentinel region.
\<close>

definition spec_region_for :: "string \<Rightarrow> string" where
  "spec_region_for loc =
     (case find (\<lambda>(keyword, region). str_in (lower keyword) (lower loc)) LOCATION_MAPPING of
        Some (keyword, region) \<Rightarrow> region
      | None \<Rightarrow>
          (case find (\<lambda>region. str_in region loc) REGIONS of
             Some region \<Rightarrow> region
           | None \<Rightarrow> ''Other NZ''))"

section \<open>The jobs table\<close>

text \<open>
  One row of the \<^verbatim>\<open>jobs\<close> table.  Text columns are nullable (\<open>None\<close> is SQL NULL),
  \<^verbatim>\<open>id\<close> is the integer primary key.  Timestamps are kept abstract: \<open>'ts\<close> is any
  type of clock readings, linearly ordered where the sweep sorts by \<^verbatim>\<open>first_seen\<close>.
\<close>

record 'ts job_row =
  row_id :: int
  url :: "string option"
  title :: "string option"
  company :: "string option"
  location :: "string option"
  region :: "string option"
  salary :: "string option"
  date_listed :: "string option"
  job_type :: "string option"
  description :: "string option"
  first_seen :: 'ts
  last_seen :: 'ts
  is_active :: bool
  triage_status :: "string option"

datatype py_error = KeyError | TypeError | IndexError | PersistenceError

section \<open>find_true_duplicates.py and remove_duplicates_simple.py\<close>

text \<open>
  The grouping query of both scripts:
  \<^verbatim>\<open>SELECT ..., GROUP_CONCAT(id ORDER BY first_seen ASC) as ids, COUNT(*) as count
  FROM jobs WHERE title IS NOT NULL AND company IS NOT NULL AND location IS NOT NULL
  GROUP BY title, company, location, SUBSTR(description, 1, 200) HAVING count > 1\<close>.
  \<open>SUBSTR\<close> of NULL is NULL and \<open>GROUP BY\<close> puts NULLs into one group, which is
  equality on \<^typ>\<open>string option\<close>.  Rows with equal \<^verbatim>\<open>first_seen\<close> stay in table
  order (a stable sort); the groups come in the order of their keys in the table.  The
  script turns the \<^verbatim>\<open>ids\<close> text back into integers, so a group is the list of its ids.
\<close>

definition where_not_null :: "'ts job_row \<Rightarrow> bool" where
  "where_not_null r = (title r \<noteq> None \<and> company r \<noteq> None \<and> location r \<noteq> None)"

definition group_key ::
    "'ts job_row \<Rightarrow> string option \<times> string option \<times> string option \<times> string option" where
  "group_key r = (title r, company r, location r, map_option (take 200) (description r))"

text \<open>The rows of the group with key \<open>k\<close>, in the order of
  \<^verbatim>\<open>GROUP_CONCAT(id ORDER BY first_seen ASC)\<close>.\<close>

definition group_members ::
    "('ts::linorder) job_row list
     \<Rightarrow> string option \<times> string option \<times> string option \<times> string option
     \<Rightarrow> 'ts job_row list" where
  "group_members table k =
     sort_key first_seen (filter (\<lambda>r. group_key r = k) (filter where_not_null table))"

definition duplicate_groups :: "('ts::linorder) job_row list \<Rightarrow> int list list" where
  "duplicate_groups table =
     filter (\<lambda>ids. length ids > 1)
       (map (\<lambda>k. map row_id (group_members table k))
            (remdups (map group_key (filter where_not_null table))))"

text \<open>The state of a sweep: the table, the counter that is returned, and what was
  printed per group (the id kept and the ids to remove).\<close>

record 'ts sweep =
  jobs :: "'ts job_row list"
  total_removed :: nat
  report :: "(int \<times> int list) list"

text \<open>\<^verbatim>\<open>for remove_id in remove_ids: DELETE FROM jobs WHERE id = ?; total_removed += 1\<close>\<close>

fun delete_each :: "int list \<Rightarrow> 'ts sweep \<Rightarrow> 'ts sweep" where
  "delete_each [] s = s"
| "delete_each (remove_id # remove_ids) s =
     delete_each remove_ids
       (s\<lparr>jobs := filter (\<lambda>r. row_id r \<noteq> remove_id) (jobs s),
          total_removed := total_removed s + 1\<rparr>)"

text \<open>The loop over the groups; \<^verbatim>\<open>ids[0]\<close> raises on an empty list.\<close>

fun resolve_groups :: "bool \<Rightarrow> int list list \<Rightarrow> 'ts sweep \<Rightarrow> py_error + 'ts sweep" where
  "resolve_groups dry_run [] s = Inr s"
| "resolve_groups dry_run (ids # groups) s =
     (case ids of
        [] \<Rightarrow> Inl IndexError
      | keep_id # remove_ids \<Rightarrow>
          resolve_groups dry_run groups
            ((if dry_run then s else delete_each remove_ids s)
               \<lparr>report := report s @ [(keep_id, remove_ids)]\<rparr>))"

text \<open>\<^verbatim>\<open>find_true_duplicates.remove_duplicates(dry_run)\<close>: the final table, the returned
  count and the per-group report.\<close>

definition remove_duplicates :: "bool \<Rightarrow> ('ts::linorder) job_row list \<Rightarrow> py_error + 'ts sweep" where
  "remove_duplicates dry_run table =
     resolve_groups dry_run (duplicate_groups table)
       \<lparr>jobs = table, total_removed = 0, report = []\<rparr>"

text \<open>The total printed at the end: the counter after a real run,
  \<^verbatim>\<open>sum(len(row[4].split(',')) - 1 for row in duplicate_groups)\<close> after a dry run.\<close>

definition printed_total :: "bool \<Rightarrow> ('ts::linorder) job_row list \<Rightarrow> py_error + nat" where
  "printed_total dry_run table =
     (case remove_duplicates dry_run table of
        Inl e \<Rightarrow> Inl e
      | Inr s \<Rightarrow>
          Inr (if dry_run then sum_list (map (\<lambda>ids. length ids - 1) (duplicate_groups table))
               else total_removed s))"

text \<open>\<^verbatim>\<open>remove_duplicates_simple.remove_duplicates()\<close>: the same query and the same
  deletions, with no dry run and no report; it returns the counter.\<close>

fun simple_loop :: "int list list \<Rightarrow> 'ts job_row list \<times> nat \<Rightarrow> py_error + 'ts job_row list \<times> nat" where
  "simple_loop [] s = Inr s"
| "simple_loop (ids # groups) (table, removed) =
     (case ids of
        [] \<Rightarrow> Inl IndexError
      | keep_id # remove_ids \<Rightarrow>
          simple_loop groups
            (fold (\<lambda>remove_id (t, n). (filter (\<lambda>r. row_id r \<noteq> remove_id) t, n + 1))
               remove_ids (table, removed)))"

definition remove_duplicates_simple ::
    "('ts::linorder) job_row list \<Rightarrow> py_error + 'ts job_row list \<times> nat" where
  "remove_duplicates_simple table = simple_loop (duplicate_groups table) (table, 0)"

section \<open>seek_scraper_selenium.py: JobDatabase.insert_or_update_job\<close>

text \<open>
  The candidate \<^verbatim>\<open>job\<close> is a dict from field names to values: a key can be absent
  (\<open>None\<close>), or present with a string or with Python's \<^verbatim>\<open>None\<close> (\<open>Some None\<close>).
\<close>

type_synonym job = "string \<rightharpoonup> string option"

definition getitem :: "job \<Rightarrow> string \<Rightarrow> py_error + string option" where
  "getitem job k = (case job k of None \<Rightarrow> Inl KeyError | Some v \<Rightarrow> Inr v)"

definition dict_get :: "job \<Rightarrow> string \<Rightarrow> string option" where
  "dict_get job k = (case job k of None \<Rightarrow> None | Some v \<Rightarrow> v)"

definition dict_get_default :: "job \<Rightarrow> string \<Rightarrow> string option \<Rightarrow> string option" where
  "dict_get_default job k d = (case job k of None \<Rightarrow> d | Some v \<Rightarrow> v)"

text \<open>\<^verbatim>\<open>x or ''\<close> on a string or \<^verbatim>\<open>None\<close>.\<close>

definition or_empty :: "string option \<Rightarrow> string" where
  "or_empty x = (case x of None \<Rightarrow> [] | Some s \<Rightarrow> s)"

text \<open>
  The store behind the client: the rows of \<^verbatim>\<open>jobs\<close> in the order queries return them,
  and the id the next insert is given.  A filter \<^verbatim>\<open>.eq(column, value)\<close> is sent as the
  text of the value (\<^verbatim>\<open>None\<close> becomes the text \<^verbatim>\<open>None\<close>) and is true of a row whose column
  holds that text; a NULL column equals nothing.
\<close>

record 'ts db =
  rows :: "'ts job_row list"
  next_id :: int

definition py_str :: "string option \<Rightarrow> string" where
  "py_str v = (case v of None \<Rightarrow> ''None'' | Some s \<Rightarrow> s)"

definition eq_filter :: "string option \<Rightarrow> string option \<Rightarrow> bool" where
  "eq_filter column v = (column = Some (py_str v))"

text \<open>The update both paths write: \<^verbatim>\<open>{"last_seen": utcnow, "is_active": True}\<close>.\<close>

definition touch :: "'ts \<Rightarrow> 'ts job_row \<Rightarrow> 'ts job_row" where
  "touch now r = r\<lparr>last_seen := now, is_active := True\<rparr>"

text \<open>
  Requests to the store can raise.  \<open>flt n\<close> says that the \<open>n\<close>-th request of the call
  (counted from 0) raises instead of taking effect; a constraint the store enforces on a
  write is such a failure.

  The loop over \<^verbatim>\<open>duplicate_query.data\<close>, starting with request number \<open>n\<close>.  A row
  whose first 200 characters of description equal the candidate's ends the call: the two
  log lines slice \<^verbatim>\<open>dup['url']\<close> and \<^verbatim>\<open>job['url']\<close>, which raises on \<^verbatim>\<open>None\<close>, then
  the row is updated by id.  The result is an exception, or the updated store
  (the call returns \<^verbatim>\<open>False\<close>), or the number of the next request when the loop ends.
\<close>

fun dup_loop ::
    "(nat \<Rightarrow> bool) \<Rightarrow> nat \<Rightarrow> 'ts \<Rightarrow> string option \<Rightarrow> string \<Rightarrow> 'ts job_row list \<Rightarrow> 'ts db
     \<Rightarrow> py_error + ('ts db + nat)" where
  "dup_loop flt n now job_url desc_snippet [] d = Inr (Inr n)"
| "dup_loop flt n now job_url desc_snippet (dup # dups) d =
     (if flt n then Inl PersistenceError
      else
        case filter (\<lambda>r. row_id r = row_id dup) (rows d) of
          [] \<Rightarrow> dup_loop flt (n + 1) now job_url desc_snippet dups d
        | dup_full # _ \<Rightarrow>
            if take 200 (or_empty (description dup_full)) = desc_snippet then
              (if url dup = None \<or> job_url = None then Inl TypeError
               else if flt (n + 1) then Inl PersistenceError
               else Inr (Inl (d\<lparr>rows :=
                       map (\<lambda>r. if row_id r = row_id dup then touch now r else r) (rows d)\<rparr>)))
            else dup_loop flt (n + 1) now job_url desc_snippet dups d)"

text \<open>The row the insert writes; \<^verbatim>\<open>triage_status\<close> is not given and stays NULL.\<close>

definition new_row :: "'ts \<Rightarrow> job \<Rightarrow> int \<Rightarrow> 'ts job_row" where
  "new_row now job i =
     \<lparr>row_id = i,
      url = dict_get job ''url'',
      title = dict_get job ''title'',
      company = dict_get job ''company'',
      location = dict_get_default job ''location'' (Some []),
      region = Some (get_region (dict_get_default job ''location'' (Some []))),
      salary = dict_get job ''salary'',
      date_listed = dict_get job ''date_listed'',
      job_type = dict_get job ''job_type'',
      description = dict_get job ''description'',
      first_seen = now,
      last_seen = now,
      is_active = True,
      triage_status = None\<rparr>"

text \<open>The body of the \<^verbatim>\<open>try\<close> block: an exception, or the value returned and the store
  after the one write of the path taken.  \<open>now\<close> is the reading of \<^verbatim>\<open>datetime.utcnow()\<close>.\<close>

definition try_body :: "(nat \<Rightarrow> bool) \<Rightarrow> 'ts \<Rightarrow> job \<Rightarrow> 'ts db \<Rightarrow> py_error + bool \<times> 'ts db" where
  "try_body flt now job d =
     (case getitem job ''url'' of
        Inl e \<Rightarrow> Inl e
      | Inr job_url \<Rightarrow>
          if flt 0 then Inl PersistenceError
          else if filter (\<lambda>r. eq_filter (url r) job_url) (rows d) \<noteq> [] then
            (if flt 1 then Inl PersistenceError
             else Inr (False,
                    d\<lparr>rows := map (\<lambda>r. if eq_filter (url r) job_url then touch now r else r)
                                  (rows d)\<rparr>))
          else
            let desc_snippet = take 200 (or_empty (dict_get_default job ''description'' (Some [])))
            in if flt 1 then Inl PersistenceError
               else
                 let duplicate_query =
                       filter (\<lambda>r. eq_filter (title r) (dict_get job ''title'')
                                  \<and> eq_filter (company r) (dict_get job ''company'')
                                  \<and> eq_filter (location r) (dict_get job ''location''))
                              (rows d)
                 in case dup_loop flt 2 now job_url desc_snippet duplicate_query d of
                      Inl e \<Rightarrow> Inl e
                    | Inr (Inl d') \<Rightarrow> Inr (False, d')
                    | Inr (Inr n) \<Rightarrow>
                        if flt n then Inl PersistenceError
                        else Inr (True,
                               d\<lparr>rows := rows d @ [new_row now job (next_id d)],
                                  next_id := next_id d + 1\<rparr>))"

text \<open>\<^verbatim>\<open>except Exception\<close>: the error is logged and the call returns \<^verbatim>\<open>False\<close>; no write
  has taken effect on a path that raised.\<close>

definition insert_or_update_job :: "(nat \<Rightarrow> bool) \<Rightarrow> 'ts \<Rightarrow> job \<Rightarrow> 'ts db \<Rightarrow> bool \<times> 'ts db" where
  "insert_or_update_job flt now job d =
     (case try_body flt now job d of
        Inl e \<Rightarrow> (False, d)
      | Inr (is_new, d') \<Rightarrow> (is_new, d'))"

text \<open>A call during which no request raises.\<close>

definition no_faults :: "nat \<Rightarrow> bool" where
  "no_faults n = False"

text \<open>The two ways a stored row is the candidate's job: the row has the candidate's
  url, or it has its title, company and location and the same first 200 characters of
  description.\<close>

definition url_match :: "job \<Rightarrow> 'ts job_row \<Rightarrow> bool" where
  "url_match job r = eq_filter (url r) (dict_get job ''url'')"

definition content_match :: "job \<Rightarrow> 'ts job_row \<Rightarrow> bool" where
  "content_match job r =
     (eq_filter (title r) (dict_get job ''title'')
      \<and> eq_filter (company r) (dict_get job ''company'')
      \<and> eq_filter (location r) (dict_get job ''location'')
      \<and> take 200 (or_empty (description r)) = take 200 (or_empty (dict_get job ''description'')))"

definition same_job :: "job \<Rightarrow> 'ts job_row \<Rightarrow> bool" where
  "same_job job r = (url_match job r \<or> content_match job r)"

text \<open>What the table guarantees about stored rows: ids are unique and below the next
  id, and no stored url is NULL.\<close>

definition db_ok :: "'ts db \<Rightarrow> bool" where
  "db_ok d =
     (distinct (map row_id (rows d))
      \<and> list_all (\<lambda>r. row_id r < next_id d) (rows d)
      \<and> list_all (\<lambda>r. url r \<noteq> None) (rows d))"

text \<open>The columns of a row other than \<^verbatim>\<open>last_seen\<close> and \<^verbatim>\<open>is_active\<close>.\<close>

definition frame_of ::
    "'ts job_row \<Rightarrow> int \<times> string option \<times> string option \<times> string option \<times> string option
       \<times> string option \<times> string option \<times> string option \<times> string option \<times> string option
       \<times> 'ts \<times> string option" where
  "frame_of r =
     (row_id r, url r, title r, company r, location r, region r, salary r, date_listed r,
      job_type r, description r, first_seen r, triage_status r)"

section \<open>seek_scraper_selenium.py: from a job card to the upsert\<close>

text \<open>Python's truth value of a string or \<^verbatim>\<open>None\<close>, and \<^verbatim>\<open>str.endswith\<close>.\<close>

definition truthy :: "string option \<Rightarrow> bool" where
  "truthy v = (case v of None \<Rightarrow> False | Some s \<Rightarrow> s \<noteq> [])"

definition endswith :: "string \<Rightarrow> string \<Rightarrow> bool" where
  "endswith s ending = startswith (rev ending) (rev s)"

text \<open>
  \<^verbatim>\<open>parse_job_card\<close> fills a dict from the elements of a card, where it finds them, and
  ends with \<^verbatim>\<open>return job if job.get('title') else None\<close>.  The dict it has filled is the
  input here; \<^verbatim>\<open>scrape_page\<close> keeps the jobs that are returned.
\<close>

definition parse_job_card_return :: "job \<Rightarrow> job option" where
  "parse_job_card_return job = (if truthy (dict_get job ''title'') then Some job else None)"

text \<open>\<^verbatim>\<open>if full_description: job['description'] = full_description\<close>, where
  \<open>full_description\<close> is what \<^verbatim>\<open>scrape_job_details\<close> returned (text, or \<^verbatim>\<open>None\<close>).\<close>

definition with_details :: "string option \<Rightarrow> job \<Rightarrow> job" where
  "with_details full_description job =
     (if truthy full_description then job(''description'' \<mapsto> full_description) else job)"

definition needs_backfill :: "string \<Rightarrow> bool" where
  "needs_backfill existing_desc =
     (length existing_desc < 500 \<or> endswith existing_desc ''...''
      \<or> str_in ''Description not available'' existing_desc)"

text \<open>
  One round of the loop \<^verbatim>\<open>for job in page_jobs\<close> in \<^verbatim>\<open>scrape_search_results\<close>.  A job
  without url is skipped.  The loop asks the store itself for the row with the job's url
  and, if there is one, updates it (with the full description when that is longer than a
  short stored one); these requests are not inside a \<^verbatim>\<open>try\<close>, so a failure (\<open>lflt\<close>)
  leaves the loop.  Only a job whose url is not stored goes to
  \<^verbatim>\<open>insert_or_update_job\<close>.  The result is the exception, or whether \<^verbatim>\<open>new_jobs\<close> is
  counted up, and the store.
\<close>

definition process_job ::
    "(nat \<Rightarrow> bool) \<Rightarrow> (nat \<Rightarrow> bool) \<Rightarrow> 'ts \<Rightarrow> string option \<Rightarrow> job \<Rightarrow> 'ts db
     \<Rightarrow> py_error + bool \<times> 'ts db" where
  "process_job lflt flt now full_description job d =
     (let job_url = dict_get job ''url''
      in if \<not> truthy job_url then Inr (False, d)
         else if lflt 0 then Inl PersistenceError
         else
           case filter (\<lambda>r. eq_filter (url r) job_url) (rows d) of
             existing_job # _ \<Rightarrow>
               let existing_desc = or_empty (description existing_job)
               in if lflt 1 then Inl PersistenceError
                  else if needs_backfill existing_desc then
                    (if truthy full_description
                        \<and> length (or_empty full_description) > length existing_desc
                     then Inr (False,
                            d\<lparr>rows := map (\<lambda>r. if row_id r = row_id existing_job
                                               then r\<lparr>description := full_description,
                                                      last_seen := now, is_active := True\<rparr>
                                               else r) (rows d)\<rparr>)
                     else Inr (False,
                            d\<lparr>rows := map (\<lambda>r. if row_id r = row_id existing_job
                                               then touch now r else r) (rows d)\<rparr>))
                  else Inr (False,
                         d\<lparr>rows := map (\<lambda>r. if eq_filter (url r) job_url then touch now r else r)
                                       (rows d)\<rparr>)
           | [] \<Rightarrow> Inr (insert_or_update_job flt now (with_details full_description job) d))"

text \<open>What one card of a page leads to: the online path of a candidate.\<close>

definition online_upsert ::
    "(nat \<Rightarrow> bool) \<Rightarrow> (nat \<Rightarrow> bool) \<Rightarrow> 'ts \<Rightarrow> string option \<Rightarrow> job \<Rightarrow> 'ts db
     \<Rightarrow> py_error + bool \<times> 'ts db" where
  "online_upsert lflt flt now full_description parsed d =
     (case parse_job_card_return parsed of
        None \<Rightarrow> Inr (False, d)
      | Some job \<Rightarrow> process_job lflt flt now full_description job d)"

section \<open>migrate_to_supabase.py\<close>

text \<open>
  The migration sends every row of the SQLite table, without its id, in batches to
  \<^verbatim>\<open>supabase.table("jobs").upsert(batch, on_conflict="url")\<close>.  For a row of the batch whose
  url is stored already, the stored row takes every column of the payload, \<^verbatim>\<open>first_seen\<close>
  and \<^verbatim>\<open>last_seen\<close> included, and keeps its id and region; any other row of the batch is
  inserted.
\<close>

definition overwrite_row :: "'ts job_row \<Rightarrow> 'ts job_row \<Rightarrow> 'ts job_row" where
  "overwrite_row src r =
     r\<lparr>url := url src, title := title src, company := company src, location := location src,
       salary := salary src, date_listed := date_listed src, job_type := job_type src,
       description := description src, first_seen := first_seen src,
       last_seen := last_seen src, is_active := is_active src,
       triage_status := triage_status src\<rparr>"

definition inserted_row :: "'ts job_row \<Rightarrow> int \<Rightarrow> 'ts job_row" where
  "inserted_row src i = src\<lparr>row_id := i, region := None\<rparr>"

fun upsert_each :: "'ts job_row list \<Rightarrow> 'ts db \<Rightarrow> 'ts db" where
  "upsert_each [] d = d"
| "upsert_each (src # batch) d =
     upsert_each batch
       (if url src \<noteq> None \<and> list_ex (\<lambda>r. url r = url src) (rows d)
        then d\<lparr>rows := map (\<lambda>r. if url r = url src then overwrite_row src r else r) (rows d)\<rparr>
        else d\<lparr>rows := rows d @ [inserted_row src (next_id d)], next_id := next_id d + 1\<rparr>)"

text \<open>One request.  It raises when the store fails (\<open>fails\<close>) and when two rows of the batch
  have the same url, since one statement cannot write a row twice; then nothing is written.\<close>

definition upsert_on_url :: "bool \<Rightarrow> 'ts job_row list \<Rightarrow> 'ts db \<Rightarrow> py_error + 'ts db" where
  "upsert_on_url fails batch d =
     (if fails then Inl PersistenceError
      else if distinct (filter (\<lambda>u. u \<noteq> None) (map url batch)) then Inr (upsert_each batch d)
      else Inl PersistenceError)"

text \<open>\<^verbatim>\<open>try: ... upsert ... except Exception\<close>: a failed batch is counted and dropped.\<close>

definition flush_batch :: "bool \<Rightarrow> 'ts job_row list \<Rightarrow> 'ts db \<Rightarrow> 'ts db" where
  "flush_batch fails batch d =
     (case upsert_on_url fails batch d of Inl e \<Rightarrow> d | Inr d' \<Rightarrow> d')"

text \<open>The loop over the SQLite rows: a batch is sent when it has reached \<^verbatim>\<open>batch_size\<close>,
  and what is left is sent at the end.  \<open>n\<close> counts the requests.\<close>

fun migrate_loop ::
    "(nat \<Rightarrow> bool) \<Rightarrow> nat \<Rightarrow> int \<Rightarrow> 'ts job_row list \<Rightarrow> 'ts job_row list \<Rightarrow> 'ts db \<Rightarrow> 'ts db" where
  "migrate_loop flt n batch_size [] batch d =
     (if batch \<noteq> [] then flush_batch (flt n) batch d else d)"
| "migrate_loop flt n batch_size (row # cursor) batch d =
     (if int (length (batch @ [row])) \<ge> batch_size
      then migrate_loop flt (n + 1) batch_size cursor [] (flush_batch (flt n) (batch @ [row]) d)
      else migrate_loop flt n batch_size cursor (batch @ [row]) d)"

definition migrate :: "(nat \<Rightarrow> bool) \<Rightarrow> int \<Rightarrow> 'ts job_row list \<Rightarrow> 'ts db \<Rightarrow> 'ts db" where
  "migrate flt batch_size sqlite_rows d = migrate_loop flt 0 batch_size sqlite_rows [] d"

section \<open>Example data\<close>

text \<open>A stored row of the job used in the examples, with clock readings as numbers.\<close>

definition stored_row :: "int \<Rightarrow> string \<Rightarrow> string \<Rightarrow> nat \<Rightarrow> nat job_row" where
  "stored_row i u loc seen =
     \<lparr>row_id = i, url = Some u, title = Some ''Backend Engineer'', company = Some ''Acme'',
      location = Some loc, region = Some loc, salary = None, date_listed = None,
      job_type = None, description = Some ''We need...'', first_seen = seen,
      last_seen = seen, is_active = True, triage_status = None\<rparr>"

text \<open>Three copies of one job (ids 10, 11, 12, first seen in that order) and one other job.\<close>

definition sweep_example :: "nat job_row list" where
  "sweep_example =
     [stored_row 12 ''c'' ''Auckland'' 3, stored_row 10 ''a'' ''Auckland'' 1,
      stored_row 13 ''d'' ''Wellington'' 0, stored_row 11 ''b'' ''Auckland'' 2]"

text \<open>The candidate of the examples, under the url \<open>u\<close>.\<close>

definition candidate :: "string \<Rightarrow> job" where
  "candidate u =
     [''url'' \<mapsto> Some u, ''title'' \<mapsto> Some ''Backend Engineer'', ''company'' \<mapsto> Some ''Acme'',
      ''location'' \<mapsto> Some ''Auckland'', ''description'' \<mapsto> Some ''We need...'']"

text \<open>A card on which no company was found, and one whose link has no address.\<close>

definition companyless_card :: job where
  "companyless_card =
     [''url'' \<mapsto> Some ''a'', ''title'' \<mapsto> Some ''Backend Engineer'',
      ''location'' \<mapsto> Some ''Auckland'', ''description'' \<mapsto> Some ''We need...'']"

definition urlless_card :: job where
  "urlless_card =
     [''url'' \<mapsto> None, ''title'' \<mapsto> Some ''Backend Engineer'', ''company'' \<mapsto> Some ''Acme'',
      ''location'' \<mapsto> Some ''Auckland'', ''description'' \<mapsto> Some ''We need...'']"

text \<open>Two copies of a job whose title is NULL.\<close>

definition untitled_rows :: "nat job_row list" where
  "untitled_rows =
     [(stored_row 20 ''a'' ''Auckland'' 1)\<lparr>title := None\<rparr>,
      (stored_row 21 ''b'' ''Auckland'' 2)\<lparr>title := None\<rparr>]"

text \<open>A store that has seen the job under the url a at time 5.\<close>

definition seen_later :: "nat db" where
  "seen_later = \<lparr>rows = [stored_row 10 ''a'' ''Auckland'' 5], next_id = 11\<rparr>"

text \<open>A store that holds the job twice, under two urls, and the empty store.\<close>

definition twice_stored :: "nat db" where
  "twice_stored =
     \<lparr>rows = [stored_row 10 ''a'' ''Auckland'' 1, stored_row 11 ''b'' ''Auckland'' 2],
      next_id = 12\<rparr>"

definition empty_db :: "nat db" where
  "empty_db = \<lparr>rows = [], next_id = 1\<rparr>"

text \<open>The store fails at its first request.\<close>

definition first_request_fails :: "nat \<Rightarrow> bool" where
  "first_request_fails n = (n = 0)"

text \<open>The store fails at every request.\<close>

definition every_request_fails :: "nat \<Rightarrow> bool" where
  "every_request_fails n = True"

section \<open>Facts about strings and dict literals\<close>

lemma startswith_prefix: "startswith n h = prefix n h"
  by (induction n h rule: startswith.induct) auto

lemma str_in_sublist: "str_in n h = sublist n h"
  by (induction h) (auto simp: startswith_prefix sublist_Cons_right)

lemma isspace_lower_char: "isspace (lower_char c) = isspace c"
  by (auto simp: isspace_def lower_char_def Let_def)

lemma dropWhile_before: "n \<noteq> [] \<Longrightarrow> \<not> P (hd n) \<Longrightarrow> dropWhile P (p @ n @ q) = dropWhile P p @ n @ q"
  by (induction p) (auto simp: neq_Nil_conv)

lemma strip_keeps:
  assumes "n \<noteq> []" "\<not> isspace (hd n)" "\<not> isspace (last n)"
  shows "strip (p @ n @ q) = dropWhile isspace p @ n @ rev (dropWhile isspace (rev q))"
proof -
  have "dropWhile isspace (rev q @ rev n @ rev (dropWhile isspace p))
        = dropWhile isspace (rev q) @ rev n @ rev (dropWhile isspace p)"
    using assms by (intro dropWhile_before) (auto simp: hd_rev)
  then show ?thesis
    using assms by (simp add: strip_def dropWhile_before)
qed

lemma sublist_strip_self: "sublist (strip s) s"
proof -
  have "suffix (dropWhile isspace s) s" by (rule suffix_dropWhile)
  moreover have "prefix (strip s) (dropWhile isspace s)"
    unfolding strip_def
    by (metis suffix_dropWhile suffix_to_prefix rev_rev_ident)
  ultimately show ?thesis
    by (meson prefix_imp_sublist suffix_imp_sublist sublist_order.order_trans)
qed

lemma str_in_strip:
  assumes "n \<noteq> []" "\<not> isspace (hd n)" "\<not> isspace (last n)"
  shows "str_in n (strip s) = str_in n s"
proof
  assume "str_in n (strip s)"
  then show "str_in n s"
    unfolding str_in_sublist using sublist_strip_self sublist_order.order_trans by blast
next
  assume "str_in n s"
  then obtain p q where "s = p @ n @ q"
    unfolding str_in_sublist sublist_def by blast
  then show "str_in n (strip s)"
    unfolding str_in_sublist using strip_keeps [OF assms, of p q] by (auto simp: sublist_def)
qed

lemma str_in_lower:
  assumes "str_in a b"
  shows "str_in (lower a) (lower b)"
proof -
  from assms obtain p q where "b = p @ a @ q"
    unfolding str_in_sublist sublist_def by blast
  then have "lower b = lower p @ lower a @ lower q"
    by (simp add: lower_def)
  then show ?thesis
    unfolding str_in_sublist sublist_def by blast
qed

lemma str_in_trans: "str_in a b \<Longrightarrow> str_in b c \<Longrightarrow> str_in a c"
  unfolding str_in_sublist by (rule sublist_order.order_trans)

lemma map_of_dict_setitem: "map_of (dict_setitem d k v) = (map_of d)(k \<mapsto> v)"
  by (induction d k v rule: dict_setitem.induct) (auto simp: fun_eq_iff)

lemma map_of_dict_literal: "map_of (dict_literal es) = map_of (rev es)"
  by (induction es rule: rev_induct) (auto simp: dict_literal_def map_of_dict_setitem)

lemma keys_dict_setitem:
  "map fst (dict_setitem d k v) = (if k \<in> fst ` set d then map fst d else map fst d @ [k])"
  by (induction d k v rule: dict_setitem.induct) auto

lemma set_keys_dict_literal: "fst ` set (dict_literal es) = fst ` set es"
proof (induction es rule: rev_induct)
  case Nil
  then show ?case by (simp add: dict_literal_def)
next
  case (snoc e es)
  obtain k v where e: "e = (k, v)" by (cases e)
  have "set (map fst (dict_setitem (dict_literal es) k v)) = insert k (fst ` set (dict_literal es))"
    unfolding keys_dict_setitem by auto
  then show ?case using snoc by (auto simp: dict_literal_def e)
qed

lemma distinct_keys_dict_literal: "distinct (map fst (dict_literal es))"
proof (induction es rule: rev_induct)
  case Nil
  then show ?case by (simp add: dict_literal_def)
next
  case (snoc e es)
  obtain k v where e: "e = (k, v)" by (cases e)
  have "dict_literal (es @ [e]) = dict_setitem (dict_literal es) k v"
    by (simp add: dict_literal_def e)
  then show ?case using snoc by (simp add: keys_dict_setitem)
qed

lemma find_key_first:
  "map_of d k0 = Some v0 \<Longrightarrow> P k0 \<Longrightarrow>
   list_all (\<lambda>k. \<not> P k) (takeWhile (\<lambda>k. k \<noteq> k0) (map fst d)) \<Longrightarrow>
   find (\<lambda>(k, v). P k) d = Some (k0, v0)"
  by (induction d) (auto split: if_splits)

lemma find_key_none:
  "find (\<lambda>(k, v). P k) d = None \<longleftrightarrow> list_all (\<lambda>k. \<not> P k) (map fst d)"
  by (induction d) auto

lemma takeWhile_neq_snoc:
  "takeWhile (\<lambda>x. x \<noteq> k0) (xs @ [k]) =
     (if k0 \<in> set xs then takeWhile (\<lambda>x. x \<noteq> k0) xs
      else if k = k0 then xs else xs @ [k])"
  by (induction xs) auto

lemma takeWhile_neq_all: "k0 \<notin> set xs \<Longrightarrow> takeWhile (\<lambda>x. x \<noteq> k0) xs = xs"
  by (induction xs) auto

lemma takeWhile_snoc_old:
  assumes "k \<in> set xs"
  shows "set (takeWhile (\<lambda>x. x \<noteq> k0) (xs @ [k])) = set (takeWhile (\<lambda>x. x \<noteq> k0) xs)"
proof (cases "k0 \<in> set xs")
  case True
  then show ?thesis by (simp add: takeWhile_neq_snoc)
next
  case False
  then have "k \<noteq> k0" using assms by blast
  then show ?thesis using False assms by (auto simp: takeWhile_neq_snoc takeWhile_neq_all)
qed

lemma takeWhile_snoc_same_set:
  assumes "set xs = set ys"
    and "set (takeWhile (\<lambda>x. x \<noteq> k0) xs) = set (takeWhile (\<lambda>x. x \<noteq> k0) ys)"
  shows "set (takeWhile (\<lambda>x. x \<noteq> k0) (xs @ [k])) = set (takeWhile (\<lambda>x. x \<noteq> k0) (ys @ [k]))"
proof (cases "k0 \<in> set xs")
  case True
  then have "k0 \<in> set ys" using assms(1) by simp
  with True show ?thesis using assms(2) by (simp add: takeWhile_neq_snoc)
next
  case False
  then have "k0 \<notin> set ys" using assms(1) by simp
  with False show ?thesis using assms(1) by (simp add: takeWhile_neq_snoc)
qed

lemma takeWhile_keys_dict_literal:
  "set (takeWhile (\<lambda>k. k \<noteq> k0) (map fst (dict_literal es)))
   = set (takeWhile (\<lambda>k. k \<noteq> k0) (map fst es))"
proof (induction es rule: rev_induct)
  case Nil
  then show ?case by (simp add: dict_literal_def)
next
  case (snoc e es)
  obtain k v where e: "e = (k, v)" by (cases e)
  have step: "dict_literal (es @ [e]) = dict_setitem (dict_literal es) k v"
    by (simp add: dict_literal_def e)
  have keys: "set (map fst (dict_literal es)) = set (map fst es)"
    using set_keys_dict_literal [of es] by simp
  have snoc_keys: "map fst (es @ [e]) = map fst es @ [k]"
    by (simp add: e)
  show ?case
  proof (cases "k \<in> fst ` set (dict_literal es)")
    case True
    then have "k \<in> set (map fst es)" using keys by simp
    then have "set (takeWhile (\<lambda>x. x \<noteq> k0) (map fst es @ [k]))
               = set (takeWhile (\<lambda>x. x \<noteq> k0) (map fst es))"
      by (rule takeWhile_snoc_old)
    moreover have "map fst (dict_literal (es @ [e])) = map fst (dict_literal es)"
      using True by (simp add: step keys_dict_setitem)
    ultimately show ?thesis using snoc.IH by (simp only: snoc_keys)
  next
    case False
    then have "map fst (dict_literal (es @ [e])) = map fst (dict_literal es) @ [k]"
      by (simp add: step keys_dict_setitem)
    then show ?thesis
      using takeWhile_snoc_same_set [OF keys snoc.IH, of k] by (simp only: snoc_keys)
  qed
qed

section \<open>Evaluating the location table\<close>

lemma lower_char_simps:
  "lower_char (CHR ''A'') = CHR ''a''"
  "lower_char (CHR ''B'') = CHR ''b''"
  "lower_char (CHR ''C'') = CHR ''c''"
  "lower_char (CHR ''D'') = CHR ''d''"
  "lower_char (CHR ''E'') = CHR ''e''"
  "lower_char (CHR ''F'') = CHR ''f''"
  "lower_char (CHR ''G'') = CHR ''g''"
  "lower_char (CHR ''H'') = CHR ''h''"
  "lower_char (CHR ''I'') = CHR ''i''"
  "lower_char (CHR ''J'') = CHR ''j''"
  "lower_char (CHR ''K'') = CHR ''k''"
  "lower_char (CHR ''L'') = CHR ''l''"
  "lower_char (CHR ''M'') = CHR ''m''"
  "lower_char (CHR ''N'') = CHR ''n''"
  "lower_char (CHR ''O'') = CHR ''o''"
  "lower_char (CHR ''P'') = CHR ''p''"
  "lower_char (CHR ''Q'') = CHR ''q''"
  "lower_char (CHR ''R'') = CHR ''r''"
  "lower_char (CHR ''S'') = CHR ''s''"
  "lower_char (CHR ''T'') = CHR ''t''"
  "lower_char (CHR ''U'') = CHR ''u''"
  "lower_char (CHR ''V'') = CHR ''v''"
  "lower_char (CHR ''W'') = CHR ''w''"
  "lower_char (CHR ''X'') = CHR ''x''"
  "lower_char (CHR ''Y'') = CHR ''y''"
  "lower_char (CHR ''Z'') = CHR ''z''"
  "lower_char (CHR ''a'') = CHR ''a''"
  "lower_char (CHR ''b'') = CHR ''b''"
  "lower_char (CHR ''c'') = CHR ''c''"
  "lower_char (CHR ''d'') = CHR ''d''"
  "lower_char (CHR ''e'') = CHR ''e''"
  "lower_char (CHR ''f'') = CHR ''f''"
  "lower_char (CHR ''g'') = CHR ''g''"
  "lower_char (CHR ''h'') = CHR ''h''"
  "lower_char (CHR ''i'') = CHR ''i''"
  "lower_char (CHR ''j'') = CHR ''j''"
  "lower_char (CHR ''k'') = CHR ''k''"
  "lower_char (CHR ''l'') = CHR ''l''"
  "lower_char (CHR ''m'') = CHR ''m''"
  "lower_char (CHR ''n'') = CHR ''n''"
  "lower_char (CHR ''o'') = CHR ''o''"
  "lower_char (CHR ''p'') = CHR ''p''"
  "lower_char (CHR ''q'') = CHR ''q''"
  "lower_char (CHR ''r'') = CHR ''r''"
  "lower_char (CHR ''s'') = CHR ''s''"
  "lower_char (CHR ''t'') = CHR ''t''"
  "lower_char (CHR ''u'') = CHR ''u''"
  "lower_char (CHR ''v'') = CHR ''v''"
  "lower_char (CHR ''w'') = CHR ''w''"
  "lower_char (CHR ''x'') = CHR ''x''"
  "lower_char (CHR ''y'') = CHR ''y''"
  "lower_char (CHR ''z'') = CHR ''z''"
  "lower_char (CHR '' '') = CHR '' ''"
  "lower_char (CHR ''-'') = CHR ''-''"
  "lower_char (CHR ''/'') = CHR ''/''"
  "lower_char (CHR 0x27) = CHR 0x27"
  "lower_char (CHR ''0'') = CHR ''0''"
  "lower_char (CHR ''1'') = CHR ''1''"
  "lower_char (CHR ''2'') = CHR ''2''"
  "lower_char (CHR ''3'') = CHR ''3''"
  "lower_char (CHR ''4'') = CHR ''4''"
  "lower_char (CHR ''5'') = CHR ''5''"
  "lower_char (CHR ''6'') = CHR ''6''"
  "lower_char (CHR ''7'') = CHR ''7''"
  "lower_char (CHR ''8'') = CHR ''8''"
  "lower_char (CHR ''9'') = CHR ''9''"
  "lower_char (CHR '','') = CHR '',''"
  by code_simp+

lemma isspace_simps:
  "isspace (CHR ''A'') = False"
  "isspace (CHR ''B'') = False"
  "isspace (CHR ''C'') = False"
  "isspace (CHR ''D'') = False"
  "isspace (CHR ''E'') = False"
  "isspace (CHR ''F'') = False"
  "isspace (CHR ''G'') = False"
  "isspace (CHR ''H'') = False"
  "isspace (CHR ''I'') = False"
  "isspace (CHR ''J'') = False"
  "isspace (CHR ''K'') = False"
  "isspace (CHR ''L'') = False"
  "isspace (CHR ''M'') = False"
  "isspace (CHR ''N'') = False"
  "isspace (CHR ''O'') = False"
  "isspace (CHR ''P'') = False"
  "isspace (CHR ''Q'') = False"
  "isspace (CHR ''R'') = False"
  "isspace (CHR ''S'') = False"
  "isspace (CHR ''T'') = False"
  "isspace (CHR ''U'') = False"
  "isspace (CHR ''V'') = False"
  "isspace (CHR ''W'') = False"
  "isspace (CHR ''X'') = False"
  "isspace (CHR ''Y'') = False"
  "isspace (CHR ''Z'') = False"
  "isspace (CHR ''a'') = False"
  "isspace (CHR ''b'') = False"
  "isspace (CHR ''c'') = False"
  "isspace (CHR ''d'') = False"
  "isspace (CHR ''e'') = False"
  "isspace (CHR ''f'') = False"
  "isspace (CHR ''g'') = False"
  "isspace (CHR ''h'') = False"
  "isspace (CHR ''i'') = False"
  "isspace (CHR ''j'') = False"
  "isspace (CHR ''k'') = False"
  "isspace (CHR ''l'') = False"
  "isspace (CHR ''m'') = False"
  "isspace (CHR ''n'') = False"
  "isspace (CHR ''o'') = False"
  "isspace (CHR ''p'') = False"
  "isspace (CHR ''q'') = False"
  "isspace (CHR ''r'') = False"
  "isspace (CHR ''s'') = False"
  "isspace (CHR ''t'') = False"
  "isspace (CHR ''u'') = False"
  "isspace (CHR ''v'') = False"
  "isspace (CHR ''w'') = False"
  "isspace (CHR ''x'') = False"
  "isspace (CHR ''y'') = False"
  "isspace (CHR ''z'') = False"
  "isspace (CHR ''-'') = False"
  "isspace (CHR ''/'') = False"
  "isspace (CHR 0x27) = False"
  "isspace (CHR ''0'') = False"
  "isspace (CHR ''1'') = False"
  "isspace (CHR ''2'') = False"
  "isspace (CHR ''3'') = False"
  "isspace (CHR ''4'') = False"
  "isspace (CHR ''5'') = False"
  "isspace (CHR ''6'') = False"
  "isspace (CHR ''7'') = False"
  "isspace (CHR ''8'') = False"
  "isspace (CHR ''9'') = False"
  "isspace (CHR '','') = False"
  "isspace (CHR '' '') = True"
  by code_simp+

lemma keys_lowered:
  "map lower (map fst LOCATION_MAPPING_entries) =
   [''auckland'',
    ''cbd'',
    ''north shore'',
    ''takapuna'',
    ''albany'',
    ''orewa'',
    ''hibiscus coast'',
    ''silverdale'',
    ''devonport'',
    ''birkenhead'',
    ''glenfield'',
    ''browns bay'',
    ''milford'',
    ''east auckland'',
    ''howick'',
    ''pakuranga'',
    ''botany'',
    ''manukau'',
    ''papatoetoe'',
    ''otahuhu'',
    ''mangere'',
    ''otara'',
    ''flat bush'',
    ''south auckland'',
    ''papakura'',
    ''takanini'',
    ''drury'',
    ''pukekohe'',
    ''waiuku'',
    ''franklin'',
    ''west auckland'',
    ''henderson'',
    ''te atatu'',
    ''glen eden'',
    ''new lynn'',
    ''avondale'',
    ''mt albert'',
    ''pt chevalier'',
    ''grey lynn'',
    ''ponsonby'',
    ''parnell'',
    ''newmarket'',
    ''remuera'',
    ''epsom'',
    ''mt eden'',
    ''grafton'',
    ''penrose'',
    ''onehunga'',
    ''ellerslie'',
    ''greenlane'',
    ''mt wellington'',
    ''panmure'',
    ''glen innes'',
    ''st heliers'',
    ''mission bay'',
    ''kohimarama'',
    ''meadowbank'',
    ''orakei'',
    ''waitakere'',
    ''kumeu'',
    ''helensville'',
    ''whangaparaoa'',
    ''rodney'',
    ''warkworth'',
    ''wellington'',
    ''lower hutt'',
    ''upper hutt'',
    ''hutt valley'',
    ''porirua'',
    ''kapiti'',
    ''paraparaumu'',
    ''waikanae'',
    ''petone'',
    ''eastbourne'',
    ''wainuiomata'',
    ''miramar'',
    ''kilbirnie'',
    ''lyall bay'',
    ''island bay'',
    ''newtown'',
    ''mt victoria'',
    ''te aro'',
    ''thorndon'',
    ''kelburn'',
    ''karori'',
    ''johnsonville'',
    ''tawa'',
    ''churton park'',
    ''khandallah'',
    ''ngaio'',
    ''wadestown'',
    ''brooklyn'',
    ''mornington'',
    ''berhampore'',
    ''seatoun'',
    ''strathmore'',
    ''hataitai'',
    ''masterton'',
    ''carterton'',
    ''greytown'',
    ''featherston'',
    ''wairarapa'',
    ''christchurch'',
    ''canterbury'',
    ''addington'',
    ''riccarton'',
    ''ilam'',
    ''fendalton'',
    ''merivale'',
    ''papanui'',
    ''bishopdale'',
    ''burnside'',
    ''avonhead'',
    ''hornby'',
    ''sockburn'',
    ''wigram'',
    ''halswell'',
    ''spreydon'',
    ''sydenham'',
    ''cashmere'',
    ''st martins'',
    ''opawa'',
    ''woolston'',
    ''ferrymead'',
    ''sumner'',
    ''lyttelton'',
    ''linwood'',
    ''phillipstown'',
    ''waltham'',
    ''st albans'',
    ''edgeware'',
    ''mairehau'',
    ''shirley'',
    ''richmond'',
    ''avonside'',
    ''dallington'',
    ''burwood'',
    ''parklands'',
    ''new brighton'',
    ''kaiapoi'',
    ''rangiora'',
    ''rolleston'',
    ''lincoln'',
    ''prebbleton'',
    ''selwyn'',
    ''waimakariri'',
    ''belfast'',
    ''northwood'',
    ''redwood'',
    ''harewood'',
    ''russley'',
    ''yaldhurst'',
    ''templeton'',
    ''ashburton'',
    ''hamilton'',
    ''waikato'',
    ''cambridge'',
    ''te awamutu'',
    ''morrinsville'',
    ''matamata'',
    ''ngaruawahia'',
    ''huntly'',
    ''raglan'',
    ''frankton'',
    ''claudelands'',
    ''hamilton east'',
    ''hamilton central'',
    ''hillcrest'',
    ''rototuna'',
    ''te rapa'',
    ''dinsdale'',
    ''tauranga'',
    ''bay of plenty'',
    ''mt maunganui'',
    ''mount maunganui'',
    ''papamoa'',
    ''te puke'',
    ''whakatane'',
    ''katikati'',
    ''omokoroa'',
    ''bethlehem'',
    ''greerton'',
    ''pyes pa'',
    ''welcome bay'',
    ''dunedin'',
    ''otago'',
    ''mosgiel'',
    ''port chalmers'',
    ''st kilda'',
    ''south dunedin'',
    ''north dunedin'',
    ''oamaru'',
    ''balclutha'',
    ''alexandra'',
    ''cromwell'',
    ''central otago'',
    ''queenstown'',
    ''arrowtown'',
    ''frankton'',
    ''wanaka'',
    ''queenstown-lakes'',
    ''palmerston north'',
    ''manawatu'',
    ''feilding'',
    ''levin'',
    ''horowhenua'',
    ''napier'',
    ''hastings'',
    ''hawke'' @ [CHR 0x27] @ ''s bay'',
    ''hawkes bay'',
    ''havelock north'',
    ''taradale'',
    ''flaxmere'',
    ''nelson'',
    ''tasman'',
    ''richmond'',
    ''motueka'',
    ''stoke'',
    ''rotorua'',
    ''lakes'',
    ''taupo'',
    ''new plymouth'',
    ''taranaki'',
    ''stratford'',
    ''hawera'',
    ''inglewood'',
    ''waitara'',
    ''whangarei'',
    ''northland'',
    ''kerikeri'',
    ''paihia'',
    ''kaitaia'',
    ''dargaville'',
    ''invercargill'',
    ''southland'',
    ''gore'',
    ''te anau'',
    ''whanganui'',
    ''wanganui'',
    ''gisborne'',
    ''east coast'',
    ''blenheim'',
    ''marlborough'',
    ''picton'',
    ''timaru'',
    ''south canterbury'',
    ''remote'',
    ''work from home'',
    ''wfh'',
    ''anywhere'',
    ''new zealand'',
    ''nz wide'']"
  unfolding LOCATION_MAPPING_entries_def lower_def
  by (simp only: list.map fst_conv lower_char_simps append.simps)

lemma keys_explicit:
  "map fst LOCATION_MAPPING_entries =
   [''Auckland'',
    ''CBD'',
    ''North Shore'',
    ''Takapuna'',
    ''Albany'',
    ''Orewa'',
    ''Hibiscus Coast'',
    ''Silverdale'',
    ''Devonport'',
    ''Birkenhead'',
    ''Glenfield'',
    ''Browns Bay'',
    ''Milford'',
    ''East Auckland'',
    ''Howick'',
    ''Pakuranga'',
    ''Botany'',
    ''Manukau'',
    ''Papatoetoe'',
    ''Otahuhu'',
    ''Mangere'',
    ''Otara'',
    ''Flat Bush'',
    ''South Auckland'',
    ''Papakura'',
    ''Takanini'',
    ''Drury'',
    ''Pukekohe'',
    ''Waiuku'',
    ''Franklin'',
    ''West Auckland'',
    ''Henderson'',
    ''Te Atatu'',
    ''Glen Eden'',
    ''New Lynn'',
    ''Avondale'',
    ''Mt Albert'',
    ''Pt Chevalier'',
    ''Grey Lynn'',
    ''Ponsonby'',
    ''Parnell'',
    ''Newmarket'',
    ''Remuera'',
    ''Epsom'',
    ''Mt Eden'',
    ''Grafton'',
    ''Penrose'',
    ''Onehunga'',
    ''Ellerslie'',
    ''Greenlane'',
    ''Mt Wellington'',
    ''Panmure'',
    ''Glen Innes'',
    ''St Heliers'',
    ''Mission Bay'',
    ''Kohimarama'',
    ''Meadowbank'',
    ''Orakei'',
    ''Waitakere'',
    ''Kumeu'',
    ''Helensville'',
    ''Whangaparaoa'',
    ''Rodney'',
    ''Warkworth'',
    ''Wellington'',
    ''Lower Hutt'',
    ''Upper Hutt'',
    ''Hutt Valley'',
    ''Porirua'',
    ''Kapiti'',
    ''Paraparaumu'',
    ''Waikanae'',
    ''Petone'',
    ''Eastbourne'',
    ''Wainuiomata'',
    ''Miramar'',
    ''Kilbirnie'',
    ''Lyall Bay'',
    ''Island Bay'',
    ''Newtown'',
    ''Mt Victoria'',
    ''Te Aro'',
    ''Thorndon'',
    ''Kelburn'',
    ''Karori'',
    ''Johnsonville'',
    ''Tawa'',
    ''Churton Park'',
    ''Khandallah'',
    ''Ngaio'',
    ''Wadestown'',
    ''Brooklyn'',
    ''Mornington'',
    ''Berhampore'',
    ''Seatoun'',
    ''Strathmore'',
    ''Hataitai'',
    ''Masterton'',
    ''Carterton'',
    ''Greytown'',
    ''Featherston'',
    ''Wairarapa'',
    ''Christchurch'',
    ''Canterbury'',
    ''Addington'',
    ''Riccarton'',
    ''Ilam'',
    ''Fendalton'',
    ''Merivale'',
    ''Papanui'',
    ''Bishopdale'',
    ''Burnside'',
    ''Avonhead'',
    ''Hornby'',
    ''Sockburn'',
    ''Wigram'',
    ''Halswell'',
    ''Spreydon'',
    ''Sydenham'',
    ''Cashmere'',
    ''St Martins'',
    ''Opawa'',
    ''Woolston'',
    ''Ferrymead'',
    ''Sumner'',
    ''Lyttelton'',
    ''Linwood'',
    ''Phillipstown'',
    ''Waltham'',
    ''St Albans'',
    ''Edgeware'',
    ''Mairehau'',
    ''Shirley'',
    ''Richmond'',
    ''Avonside'',
    ''Dallington'',
    ''Burwood'',
    ''Parklands'',
    ''New Brighton'',
    ''Kaiapoi'',
    ''Rangiora'',
    ''Rolleston'',
    ''Lincoln'',
    ''Prebbleton'',
    ''Selwyn'',
    ''Waimakariri'',
    ''Belfast'',
    ''Northwood'',
    ''Redwood'',
    ''Harewood'',
    ''Russley'',
    ''Yaldhurst'',
    ''Templeton'',
    ''Ashburton'',
    ''Hamilton'',
    ''Waikato'',
    ''Cambridge'',
    ''Te Awamutu'',
    ''Morrinsville'',
    ''Matamata'',
    ''Ngaruawahia'',
    ''Huntly'',
    ''Raglan'',
    ''Frankton'',
    ''Claudelands'',
    ''Hamilton East'',
    ''Hamilton Central'',
    ''Hillcrest'',
    ''Rototuna'',
    ''Te Rapa'',
    ''Dinsdale'',
    ''Tauranga'',
    ''Bay of Plenty'',
    ''Mt Maunganui'',
    ''Mount Maunganui'',
    ''Papamoa'',
    ''Te Puke'',
    ''Whakatane'',
    ''Katikati'',
    ''Omokoroa'',
    ''Bethlehem'',
    ''Greerton'',
    ''Pyes Pa'',
    ''Welcome Bay'',
    ''Dunedin'',
    ''Otago'',
    ''Mosgiel'',
    ''Port Chalmers'',
    ''St Kilda'',
    ''South Dunedin'',
    ''North Dunedin'',
    ''Oamaru'',
    ''Balclutha'',
    ''Alexandra'',
    ''Cromwell'',
    ''Central Otago'',
    ''Queenstown'',
    ''Arrowtown'',
    ''Frankton'',
    ''Wanaka'',
    ''Queenstown-Lakes'',
    ''Palmerston North'',
    ''Manawatu'',
    ''Feilding'',
    ''Levin'',
    ''Horowhenua'',
    ''Napier'',
    ''Hastings'',
    ''Hawke'' @ [CHR 0x27] @ ''s Bay'',
    ''Hawkes Bay'',
    ''Havelock North'',
    ''Taradale'',
    ''Flaxmere'',
    ''Nelson'',
    ''Tasman'',
    ''Richmond'',
    ''Motueka'',
    ''Stoke'',
    ''Rotorua'',
    ''Lakes'',
    ''Taupo'',
    ''New Plymouth'',
    ''Taranaki'',
    ''Stratford'',
    ''Hawera'',
    ''Inglewood'',
    ''Waitara'',
    ''Whangarei'',
    ''Northland'',
    ''Kerikeri'',
    ''Paihia'',
    ''Kaitaia'',
    ''Dargaville'',
    ''Invercargill'',
    ''Southland'',
    ''Gore'',
    ''Te Anau'',
    ''Whanganui'',
    ''Wanganui'',
    ''Gisborne'',
    ''East Coast'',
    ''Blenheim'',
    ''Marlborough'',
    ''Picton'',
    ''Timaru'',
    ''South Canterbury'',
    ''Remote'',
    ''Work from Home'',
    ''WFH'',
    ''Anywhere'',
    ''New Zealand'',
    ''NZ Wide'']"
  unfolding LOCATION_MAPPING_entries_def by (simp only: list.map fst_conv)

lemma keys_shape:
  "list_all (\<lambda>k. k \<noteq> [] \<and> \<not> isspace (hd k) \<and> \<not> isspace (last k))
     (map fst LOCATION_MAPPING_entries)"
  unfolding keys_explicit by (simp add: isspace_simps)

lemma frankton_last: "last_value ''Frankton'' LOCATION_MAPPING_entries None = Some ''Queenstown''"
  unfolding LOCATION_MAPPING_entries_def by simp

lemma richmond_last: "last_value ''Richmond'' LOCATION_MAPPING_entries None = Some ''Nelson''"
  unfolding LOCATION_MAPPING_entries_def by simp

lemma auckland_last: "last_value ''Auckland'' LOCATION_MAPPING_entries None = Some ''Auckland''"
  unfolding LOCATION_MAPPING_entries_def by simp

lemma region_keys:
  "list_all (\<lambda>r. r \<in> set (map fst LOCATION_MAPPING_entries))
     [''Auckland'', ''Wellington'', ''Christchurch'', ''Hamilton'', ''Tauranga'', ''Dunedin'',
      ''Queenstown'', ''Palmerston North'', ''Nelson'', ''Rotorua'', ''New Plymouth'',
      ''Whangarei'', ''Invercargill'', ''Whanganui'', ''Gisborne'', ''Blenheim'', ''Timaru'',
      ''Napier'', ''Remote'']"
  unfolding keys_explicit by simp

section \<open>The region rule\<close>

lemma last_value_map_of:
  "last_value k es acc = (case map_of (rev es) k of Some v \<Rightarrow> Some v | None \<Rightarrow> acc)"
  by (induction es arbitrary: acc) (auto simp: map_add_def split: option.splits)

lemma map_of_LOCATION_MAPPING:
  "map_of LOCATION_MAPPING k = last_value k LOCATION_MAPPING_entries None"
  by (simp add: LOCATION_MAPPING_def map_of_dict_literal last_value_map_of split: option.splits)

lemma keys_LOCATION_MAPPING: "set (map fst LOCATION_MAPPING) = set (map fst LOCATION_MAPPING_entries)"
  using set_keys_dict_literal [of LOCATION_MAPPING_entries] by (simp add: LOCATION_MAPPING_def)

text \<open>Stripping the location changes no keyword test.\<close>

lemma keyword_test_strip:
  assumes "k \<in> set (map fst LOCATION_MAPPING_entries)"
  shows "str_in (lower k) (strip s) = str_in (lower k) s"
proof -
  from assms keys_shape have k: "k \<noteq> []" "\<not> isspace (hd k)" "\<not> isspace (last k)"
    by (auto simp: list_all_iff)
  then have "lower k \<noteq> []" "\<not> isspace (hd (lower k))" "\<not> isspace (last (lower k))"
    by (simp_all add: lower_def hd_map last_map isspace_lower_char)
  then show ?thesis by (rule str_in_strip)
qed

lemma region_covered:
  assumes "r \<in> set REGIONS" "r \<noteq> ''Other NZ''"
  shows "\<exists>k\<in>set (map fst LOCATION_MAPPING_entries). str_in (lower k) (lower r)"
proof -
  let ?ks = "[''Auckland'', ''Wellington'', ''Christchurch'', ''Hamilton'', ''Tauranga'', ''Dunedin'',
      ''Queenstown'', ''Palmerston North'', ''Nelson'', ''Rotorua'', ''New Plymouth'',
      ''Whangarei'', ''Invercargill'', ''Whanganui'', ''Gisborne'', ''Blenheim'', ''Timaru'',
      ''Napier'', ''Remote'']"
  have keys: "k \<in> set (map fst LOCATION_MAPPING_entries)" if "k \<in> set ?ks" for k
    using region_keys that unfolding list_all_iff by blast
  have self: "str_in (lower x) (lower x)" for x
    by (simp add: str_in_sublist)
  have napier: "str_in (lower ''Napier'') (lower ''Napier-Hastings'')"
    by (rule str_in_lower) simp
  have remote: "str_in (lower ''Remote'') (lower ''Remote / Work from Home'')"
    by (rule str_in_lower) simp
  have "r \<in> set ?ks \<or> r = ''Napier-Hastings'' \<or> r = ''Remote / Work from Home''"
    using assms unfolding REGIONS_def by auto
  then consider "r \<in> set ?ks" | "r = ''Napier-Hastings''" | "r = ''Remote / Work from Home''"
    by blast
  then show ?thesis
  proof cases
    case 1
    then have "r \<in> set (map fst LOCATION_MAPPING_entries)" by (rule keys)
    then show ?thesis using self by blast
  next
    case 2
    have "''Napier'' \<in> set (map fst LOCATION_MAPPING_entries)" by (rule keys) simp
    then show ?thesis using napier 2 by blast
  next
    case 3
    have "''Remote'' \<in> set (map fst LOCATION_MAPPING_entries)" by (rule keys) simp
    then show ?thesis using remote 3 by blast
  qed
qed

text \<open>When no keyword occurs in \<open>s\<close>, no region name other than the sentinel does.\<close>

lemma no_keyword_no_region:
  assumes "\<forall>k\<in>set (map fst LOCATION_MAPPING_entries). \<not> str_in (lower k) s"
    and "r \<in> set REGIONS" "str_in (lower r) s"
  shows "r = ''Other NZ''"
proof (rule ccontr)
  assume "r \<noteq> ''Other NZ''"
  then obtain k where "k \<in> set (map fst LOCATION_MAPPING_entries)" "str_in (lower k) (lower r)"
    using region_covered assms(2) by blast
  then show False using assms(1,3) str_in_trans by blast
qed

lemma find_region_sentinel:
  assumes "\<And>r. r \<in> set REGIONS \<Longrightarrow> P r \<Longrightarrow> r = ''Other NZ''"
  shows "(case find P REGIONS of Some r \<Rightarrow> r | None \<Rightarrow> ''Other NZ'') = ''Other NZ''"
proof (cases "find P REGIONS")
  case None
  then show ?thesis by simp
next
  case (Some r)
  then have "r \<in> set REGIONS" "P r"
    by (auto simp: find_Some_iff)
  then show ?thesis using assms Some by simp
qed

lemma get_region_no_keyword:
  assumes "\<forall>k\<in>set (map fst LOCATION_MAPPING_entries). \<not> str_in (lower k) (strip (lower loc))"
  shows "get_region (Some loc) = ''Other NZ''"
proof -
  have "find (\<lambda>(keyword, region). str_in (lower keyword) (strip (lower loc))) LOCATION_MAPPING = None"
    using assms keys_LOCATION_MAPPING by (simp add: find_key_none list_all_iff)
  moreover have "(case find (\<lambda>region. str_in (lower region) (strip (lower loc))) REGIONS of
                    Some r \<Rightarrow> r | None \<Rightarrow> ''Other NZ'') = ''Other NZ''"
    by (rule find_region_sentinel) (rule no_keyword_no_region [OF assms])
  ultimately show ?thesis by (simp add: get_region_def)
qed

lemma get_region_keyword:
  assumes "last_value k0 LOCATION_MAPPING_entries None = Some v0"
    and "str_in (lower k0) (strip (lower loc))"
    and "\<forall>k\<in>set (takeWhile (\<lambda>k. k \<noteq> k0) (map fst LOCATION_MAPPING_entries)).
           \<not> str_in (lower k) (strip (lower loc))"
  shows "get_region (Some loc) = v0"
proof -
  have m: "map_of LOCATION_MAPPING k0 = Some v0"
    using assms(1) by (simp add: map_of_LOCATION_MAPPING)
  then have "k0 \<in> set (map fst LOCATION_MAPPING_entries)"
    using keys_LOCATION_MAPPING by (metis map_of_eq_None_iff option.distinct(1) set_map)
  then have "lower k0 \<noteq> []"
    using keys_shape by (auto simp: list_all_iff lower_def)
  then have "strip (lower loc) \<noteq> []"
    using assms(2) by (cases "lower k0") auto
  then have ne: "loc \<noteq> []"
    by (auto simp: lower_def strip_def)
  have "list_all (\<lambda>k. \<not> str_in (lower k) (strip (lower loc)))
          (takeWhile (\<lambda>k. k \<noteq> k0) (map fst LOCATION_MAPPING))"
    using assms(3) takeWhile_keys_dict_literal [of k0 LOCATION_MAPPING_entries]
    by (simp add: list_all_iff LOCATION_MAPPING_def)
  with m assms(2)
  have "find (\<lambda>(k, v). str_in (lower k) (strip (lower loc))) LOCATION_MAPPING = Some (k0, v0)"
    by (rule find_key_first)
  then show ?thesis using ne by (simp add: get_region_def)
qed

section \<open>Keyword collisions in the location table\<close>

lemma earlier_keys:
  "list_all P (takeWhile (\<lambda>k. k \<noteq> k0) (map fst LOCATION_MAPPING))
   = list_all P (takeWhile (\<lambda>k. k \<noteq> k0) (map fst LOCATION_MAPPING_entries))"
  using takeWhile_keys_dict_literal [of k0 LOCATION_MAPPING_entries]
  by (simp add: list_all_iff LOCATION_MAPPING_def)

lemma get_region_collision:
  assumes last: "last_value k0 LOCATION_MAPPING_entries None = Some v0"
    and hit: "str_in (lower k0) (lower loc)"
    and first: "list_all (\<lambda>k. \<not> str_in (lower k) (lower loc))
                  (takeWhile (\<lambda>k. k \<noteq> k0) (map fst LOCATION_MAPPING))"
  shows "get_region (Some loc) = v0"
proof -
  have "map_of LOCATION_MAPPING k0 = Some v0"
    using last by (simp add: map_of_LOCATION_MAPPING)
  then have k0: "k0 \<in> set (map fst LOCATION_MAPPING_entries)"
    using keys_LOCATION_MAPPING by (metis map_of_eq_None_iff option.distinct(1) set_map)
  have first': "list_all (\<lambda>k. \<not> str_in (lower k) (lower loc))
                  (takeWhile (\<lambda>k. k \<noteq> k0) (map fst LOCATION_MAPPING_entries))"
    using first by (simp only: earlier_keys)
  have "str_in (lower k0) (strip (lower loc))"
    using hit keyword_test_strip [OF k0] by simp
  moreover have "\<forall>k\<in>set (takeWhile (\<lambda>k. k \<noteq> k0) (map fst LOCATION_MAPPING_entries)).
                   \<not> str_in (lower k) (strip (lower loc))"
  proof
    fix k assume k: "k \<in> set (takeWhile (\<lambda>k. k \<noteq> k0) (map fst LOCATION_MAPPING_entries))"
    then have "k \<in> set (map fst LOCATION_MAPPING_entries)" by (rule set_takeWhileD [THEN conjunct1])
    moreover have "\<not> str_in (lower k) (lower loc)"
      using first' k unfolding list_all_iff by blast
    ultimately show "\<not> str_in (lower k) (strip (lower loc))"
      using keyword_test_strip by simp
  qed
  ultimately show ?thesis using last by (intro get_region_keyword)
qed

lemma overwritten_entry:
  assumes "last_value k0 LOCATION_MAPPING_entries None = Some v0" "v \<noteq> v0"
  shows "(k0, v) \<notin> set LOCATION_MAPPING"
proof
  assume "(k0, v) \<in> set LOCATION_MAPPING"
  moreover have "distinct (map fst LOCATION_MAPPING)"
    unfolding LOCATION_MAPPING_def by (rule distinct_keys_dict_literal)
  ultimately have "map_of LOCATION_MAPPING k0 = Some v" by simp
  then show False using assms by (simp add: map_of_LOCATION_MAPPING)
qed

lemma written_entries:
  "(''Frankton'', ''Hamilton'') \<in> set LOCATION_MAPPING_entries"
  "(''Richmond'', ''Christchurch'') \<in> set LOCATION_MAPPING_entries"
  unfolding LOCATION_MAPPING_entries_def by simp_all

lemma before_frankton:
  "list_all (\<lambda>k. \<not> str_in (lower k) (lower ''Frankton''))
     (takeWhile (\<lambda>k. k \<noteq> ''Frankton'') (map fst LOCATION_MAPPING))"
  unfolding earlier_keys keys_explicit
  by (simp add: lower_def lower_char_simps)

lemma before_richmond:
  "list_all (\<lambda>k. \<not> str_in (lower k) (lower ''Richmond''))
     (takeWhile (\<lambda>k. k \<noteq> ''Richmond'') (map fst LOCATION_MAPPING))"
  unfolding earlier_keys keys_explicit
  by (simp add: lower_def lower_char_simps)

text \<open>
  Claim C10.  The literal writes \<^verbatim>\<open>"Frankton"\<close> twice (Hamilton, then Queenstown) and
  \<^verbatim>\<open>"Richmond"\<close> twice (Christchurch, then Nelson).  The dict keeps each key once, with
  the later value: a location that contains Frankton (in any letter case) and no keyword
  that comes earlier in the dict gets the region Queenstown, one that contains Richmond
  and no earlier keyword gets Nelson, and the entries written first are not in the dict.
\<close>

theorem keyword_collisions:
  "(str_in (lower ''Frankton'') (lower loc)
      \<and> list_all (\<lambda>k. \<not> str_in (lower k) (lower loc))
            (takeWhile (\<lambda>k. k \<noteq> ''Frankton'') (map fst LOCATION_MAPPING))
      \<longrightarrow> get_region (Some loc) = ''Queenstown'')
   \<and> (str_in (lower ''Richmond'') (lower loc)
      \<and> list_all (\<lambda>k. \<not> str_in (lower k) (lower loc))
            (takeWhile (\<lambda>k. k \<noteq> ''Richmond'') (map fst LOCATION_MAPPING))
      \<longrightarrow> get_region (Some loc) = ''Nelson'')
   \<and> (''Frankton'', ''Hamilton'') \<in> set LOCATION_MAPPING_entries
   \<and> (''Frankton'', ''Hamilton'') \<notin> set LOCATION_MAPPING
   \<and> (''Richmond'', ''Christchurch'') \<in> set LOCATION_MAPPING_entries
   \<and> (''Richmond'', ''Christchurch'') \<notin> set LOCATION_MAPPING"
proof (intro conjI impI)
  assume "str_in (lower ''Frankton'') (lower loc)
      \<and> list_all (\<lambda>k. \<not> str_in (lower k) (lower loc))
            (takeWhile (\<lambda>k. k \<noteq> ''Frankton'') (map fst LOCATION_MAPPING))"
  then show "get_region (Some loc) = ''Queenstown''"
    using get_region_collision [OF frankton_last] by blast
next
  assume "str_in (lower ''Richmond'') (lower loc)
      \<and> list_all (\<lambda>k. \<not> str_in (lower k) (lower loc))
            (takeWhile (\<lambda>k. k \<noteq> ''Richmond'') (map fst LOCATION_MAPPING))"
  then show "get_region (Some loc) = ''Nelson''"
    using get_region_collision [OF richmond_last] by blast
next
  show "(''Frankton'', ''Hamilton'') \<notin> set LOCATION_MAPPING"
    by (rule overwritten_entry [OF frankton_last]) simp
next
  show "(''Richmond'', ''Christchurch'') \<notin> set LOCATION_MAPPING"
    by (rule overwritten_entry [OF richmond_last]) simp
qed (rule written_entries)+

theorem keyword_collisions_witness:
  "str_in (lower ''Frankton'') (lower ''Frankton'')
   \<and> list_all (\<lambda>k. \<not> str_in (lower k) (lower ''Frankton''))
        (takeWhile (\<lambda>k. k \<noteq> ''Frankton'') (map fst LOCATION_MAPPING))
   \<and> get_region (Some ''Frankton'') = ''Queenstown''
   \<and> str_in (lower ''Richmond'') (lower ''Richmond'')
   \<and> list_all (\<lambda>k. \<not> str_in (lower k) (lower ''Richmond''))
        (takeWhile (\<lambda>k. k \<noteq> ''Richmond'') (map fst LOCATION_MAPPING))
   \<and> get_region (Some ''Richmond'') = ''Nelson''"
proof -
  have f: "str_in (lower ''Frankton'') (lower ''Frankton'')"
    and r: "str_in (lower ''Richmond'') (lower ''Richmond'')"
    by (simp_all add: str_in_sublist)
  have "get_region (Some ''Frankton'') = ''Queenstown''"
    using keyword_collisions [of "''Frankton''"] f before_frankton by blast
  moreover have "get_region (Some ''Richmond'') = ''Nelson''"
    using keyword_collisions [of "''Richmond''"] r before_richmond by blast
  ultimately show ?thesis using f r before_frankton before_richmond by blast
qed

section \<open>The region rule against its specification\<close>

lemma spec_region_no_keyword:
  assumes "\<forall>k\<in>set (map fst LOCATION_MAPPING_entries). \<not> str_in (lower k) (lower loc)"
  shows "spec_region_for loc = ''Other NZ''"
proof -
  have "find (\<lambda>(k, v). str_in (lower k) (lower loc)) LOCATION_MAPPING = None"
    using assms keys_LOCATION_MAPPING by (simp add: find_key_none list_all_iff)
  moreover have "(case find (\<lambda>r. str_in r loc) REGIONS of
                    Some r \<Rightarrow> r | None \<Rightarrow> ''Other NZ'') = ''Other NZ''"
  proof (rule find_region_sentinel)
    fix r assume "r \<in> set REGIONS" "str_in r loc"
    then show "r = ''Other NZ''"
      using no_keyword_no_region [OF assms] str_in_lower by blast
  qed
  ultimately show ?thesis by (simp add: spec_region_for_def)
qed

lemma get_region_refines: "get_region (Some loc) = spec_region_for loc"
proof (cases "\<exists>k\<in>set (map fst LOCATION_MAPPING_entries). str_in (lower k) (lower loc)")
  case True
  then obtain k0 where k0: "k0 \<in> set (map fst LOCATION_MAPPING_entries)"
      "str_in (lower k0) (lower loc)" by blast
  then have "lower k0 \<noteq> []"
    using keys_shape by (auto simp: list_all_iff lower_def)
  then have ne: "loc \<noteq> []"
    using k0(2) by (cases "lower k0") (auto simp: lower_def)
  have same: "find (\<lambda>(k, v). str_in (lower k) (strip (lower loc))) LOCATION_MAPPING
            = find (\<lambda>(k, v). str_in (lower k) (lower loc)) LOCATION_MAPPING"
  proof (rule find_cong [OF refl])
    fix p assume "p \<in> set LOCATION_MAPPING"
    then have "fst p \<in> set (map fst LOCATION_MAPPING_entries)"
      using keys_LOCATION_MAPPING by (metis image_eqI set_map)
    then show "(case p of (k, v) \<Rightarrow> str_in (lower k) (strip (lower loc)))
             = (case p of (k, v) \<Rightarrow> str_in (lower k) (lower loc))"
      using keyword_test_strip by (cases p) simp
  qed
  have "find (\<lambda>(k, v). str_in (lower k) (lower loc)) LOCATION_MAPPING \<noteq> None"
    using k0 keys_LOCATION_MAPPING by (auto simp: find_key_none list_all_iff)
  then obtain k r where
    "find (\<lambda>(k, v). str_in (lower k) (lower loc)) LOCATION_MAPPING = Some (k, r)"
    by fastforce
  then show ?thesis
    using ne same by (simp add: get_region_def spec_region_for_def)
next
  case False
  then have none: "\<forall>k\<in>set (map fst LOCATION_MAPPING_entries). \<not> str_in (lower k) (lower loc)"
    by blast
  then have "\<forall>k\<in>set (map fst LOCATION_MAPPING_entries). \<not> str_in (lower k) (strip (lower loc))"
    using keyword_test_strip by simp
  then show ?thesis
    using none by (simp add: get_region_no_keyword spec_region_no_keyword)
qed

lemma queen_street: "get_region (Some ''123 Queen St, Auckland CBD'') = ''Auckland''"
proof (rule get_region_keyword [OF auckland_last])
  show "str_in (lower ''Auckland'') (strip (lower ''123 Queen St, Auckland CBD''))"
    by (simp add: lower_def lower_char_simps strip_def isspace_simps)
  show "\<forall>k\<in>set (takeWhile (\<lambda>k. k \<noteq> ''Auckland'') (map fst LOCATION_MAPPING_entries)).
          \<not> str_in (lower k) (strip (lower ''123 Queen St, Auckland CBD''))"
    unfolding keys_explicit by simp
qed

lemma no_match: "get_region (Some ''somewhere with no match'') = ''Other NZ''"
proof (rule get_region_no_keyword)
  have s: "strip (lower ''somewhere with no match'') = ''somewhere with no match''"
    by (simp add: lower_def lower_char_simps strip_def isspace_simps)
  have "list_all (\<lambda>lk. \<not> str_in lk ''somewhere with no match'')
          (map lower (map fst LOCATION_MAPPING_entries))"
    unfolding keys_lowered by simp
  then show "\<forall>k\<in>set (map fst LOCATION_MAPPING_entries).
               \<not> str_in (lower k) (strip (lower ''somewhere with no match''))"
    unfolding s by (simp add: list_all_iff)
qed

text \<open>
  Claim C5.  \<^verbatim>\<open>get_region\<close> computes the region rule of the specification: the region of
  the first table entry whose lowercased keyword occurs in the lowercased location, else
  the first canonical region name that occurs in the location, else the sentinel
  \<^verbatim>\<open>"Other NZ"\<close>; a missing location gets the sentinel.  The result is a function of the
  location alone, so it is the same on every call: \<^verbatim>\<open>"123 Queen St, Auckland CBD"\<close>
  gives Auckland and \<^verbatim>\<open>"somewhere with no match"\<close> gives the sentinel.
\<close>

theorem region_computation:
  "get_region (Some loc) = spec_region_for loc
   \<and> get_region None = ''Other NZ''
   \<and> get_region (Some ''123 Queen St, Auckland CBD'') = ''Auckland''
   \<and> get_region (Some ''somewhere with no match'') = ''Other NZ''"
  using get_region_refines queen_street no_match by (simp add: get_region_def)

section \<open>The sweep\<close>

lemma delete_each_jobs:
  "jobs (delete_each ids s) = filter (\<lambda>r. row_id r \<notin> set ids) (jobs s)"
  by (induction ids arbitrary: s) (auto intro: filter_cong)

lemma delete_each_total: "total_removed (delete_each ids s) = total_removed s + length ids"
  by (induction ids arbitrary: s) auto

lemma delete_each_report: "report (delete_each ids s) = report s"
  by (induction ids arbitrary: s) auto

text \<open>The ids the loop deletes: everything after the first id of each group.\<close>

lemma resolve_groups_result:
  assumes "[] \<notin> set groups"
  shows "\<exists>s'. resolve_groups dry_run groups s = Inr s'
      \<and> jobs s' = (if dry_run then jobs s
                   else filter (\<lambda>r. row_id r \<notin> set (concat (map tl groups))) (jobs s))
      \<and> total_removed s' = (if dry_run then total_removed s
                   else total_removed s + length (concat (map tl groups)))
      \<and> map (\<lambda>(keep_id, remove_ids). keep_id # remove_ids) (report s')
          = map (\<lambda>(keep_id, remove_ids). keep_id # remove_ids) (report s) @ groups"
  using assms
proof (induction groups arbitrary: s)
  case Nil
  then show ?case by simp
next
  case (Cons ids groups)
  then obtain keep_id remove_ids where ids: "ids = keep_id # remove_ids"
    by (cases ids) auto
  let ?s = "(if dry_run then s else delete_each remove_ids s)
               \<lparr>report := report s @ [(keep_id, remove_ids)]\<rparr>"
  from Cons have "[] \<notin> set groups" by simp
  from Cons.IH [OF this, of ?s] obtain s' where s':
    "resolve_groups dry_run groups ?s = Inr s'"
    "jobs s' = (if dry_run then jobs ?s
                else filter (\<lambda>r. row_id r \<notin> set (concat (map tl groups))) (jobs ?s))"
    "total_removed s' = (if dry_run then total_removed ?s
                else total_removed ?s + length (concat (map tl groups)))"
    "map (\<lambda>(keep_id, remove_ids). keep_id # remove_ids) (report s')
      = map (\<lambda>(keep_id, remove_ids). keep_id # remove_ids) (report ?s) @ groups"
    by blast
  have "resolve_groups dry_run (ids # groups) s = Inr s'"
    using s'(1) by (simp add: ids)
  moreover have "jobs s' = (if dry_run then jobs s
                   else filter (\<lambda>r. row_id r \<notin> set (concat (map tl (ids # groups)))) (jobs s))"
    using s'(2) by (auto simp: ids delete_each_jobs intro: filter_cong)
  moreover have "total_removed s' = (if dry_run then total_removed s
                   else total_removed s + length (concat (map tl (ids # groups))))"
    using s'(3) by (simp add: ids delete_each_total)
  moreover have "map (\<lambda>(keep_id, remove_ids). keep_id # remove_ids) (report s')
          = map (\<lambda>(keep_id, remove_ids). keep_id # remove_ids) (report s) @ ids # groups"
    using s'(4) by (simp add: ids delete_each_report)
  ultimately show ?case by blast
qed

lemma duplicate_groups_nonempty: "[] \<notin> set (duplicate_groups table)"
  by (auto simp: duplicate_groups_def Let_def)


lemma remove_duplicates_result:
  "\<exists>s. remove_duplicates dry_run table = Inr s
      \<and> jobs s = (if dry_run then table
                  else filter (\<lambda>r. row_id r \<notin> set (concat (map tl (duplicate_groups table)))) table)
      \<and> total_removed s = (if dry_run then 0 else length (concat (map tl (duplicate_groups table))))
      \<and> map (\<lambda>(keep_id, remove_ids). keep_id # remove_ids) (report s) = duplicate_groups table"
  using resolve_groups_result [OF duplicate_groups_nonempty,
          of dry_run table "\<lparr>jobs = table, total_removed = 0, report = []\<rparr>"]
  by (cases dry_run) (simp_all add: remove_duplicates_def)

lemma length_concat_tl:
  "length (concat (map tl groups)) = sum_list (map (\<lambda>ids. length ids - 1) groups)"
  by (induction groups) auto

lemma fold_delete:
  "fold (\<lambda>remove_id (t, n). (filter (\<lambda>r. row_id r \<noteq> remove_id) t, n + 1)) ids
        (jobs s, total_removed s)
   = (jobs (delete_each ids s), total_removed (delete_each ids s))"
proof (induction ids arbitrary: s)
  case Nil
  then show ?case by simp
next
  case (Cons remove_id ids)
  show ?case
    using Cons [of "s\<lparr>jobs := filter (\<lambda>r. row_id r \<noteq> remove_id) (jobs s),
                        total_removed := total_removed s + 1\<rparr>"]
    by simp
qed

lemma simple_loop_resolve:
  "simple_loop groups (jobs s, total_removed s)
   = (case resolve_groups False groups s of
        Inl e \<Rightarrow> Inl e
      | Inr s' \<Rightarrow> Inr (jobs s', total_removed s'))"
proof (induction groups arbitrary: s)
  case Nil
  then show ?case by simp
next
  case (Cons ids groups)
  show ?case
  proof (cases ids)
    case Nil
    then show ?thesis by simp
  next
    case (Cons keep_id remove_ids)
    let ?s = "(delete_each remove_ids s)\<lparr>report := report s @ [(keep_id, remove_ids)]\<rparr>"
    have "simple_loop (ids # groups) (jobs s, total_removed s)
          = simple_loop groups (jobs ?s, total_removed ?s)"
      using fold_delete [of remove_ids s] by (simp add: Cons)
    then show ?thesis
      using Cons.IH [of ?s] by (simp add: Cons)
  qed
qed

lemma remove_duplicates_simple_eq:
  "remove_duplicates_simple table
   = (case remove_duplicates False table of
        Inl e \<Rightarrow> Inl e
      | Inr s \<Rightarrow> Inr (jobs s, total_removed s))"
  using simple_loop_resolve [of "duplicate_groups table"
          "\<lparr>jobs = table, total_removed = 0, report = []\<rparr>"]
  by (simp add: remove_duplicates_simple_def remove_duplicates_def)

text \<open>
  Claim C6.  A dry run leaves the table as it was and returns 0.  It reports, group by
  group, the id it would keep and the ids it would remove (together they are the
  group), and prints their number; the real run on the same table reports the same
  groups and removes exactly that many.
\<close>

theorem dry_run_pure:
  "\<exists>rep. remove_duplicates True table = Inr \<lparr>jobs = table, total_removed = 0, report = rep\<rparr>
      \<and> map (\<lambda>(keep_id, remove_ids). keep_id # remove_ids) rep = duplicate_groups table
      \<and> printed_total True table = Inr (sum_list (map (\<lambda>(keep_id, remove_ids). length remove_ids) rep))
      \<and> (\<exists>s. remove_duplicates False table = Inr s \<and> report s = rep
             \<and> total_removed s = sum_list (map (\<lambda>(keep_id, remove_ids). length remove_ids) rep))"
proof -
  obtain d where d: "remove_duplicates True table = Inr d" "jobs d = table" "total_removed d = 0"
      "map (\<lambda>(keep_id, remove_ids). keep_id # remove_ids) (report d) = duplicate_groups table"
    using remove_duplicates_result [of True table] by auto
  obtain s where s: "remove_duplicates False table = Inr s"
      "total_removed s = length (concat (map tl (duplicate_groups table)))"
      "map (\<lambda>(keep_id, remove_ids). keep_id # remove_ids) (report s) = duplicate_groups table"
    using remove_duplicates_result [of False table] by auto
  have inj: "inj (\<lambda>(keep_id :: int, remove_ids :: int list). keep_id # remove_ids)"
    by (auto simp: inj_on_def)
  have same: "report s = report d"
    using s(3) d(4) inj by (metis inj_map_eq_map)
  have count: "sum_list (map (\<lambda>ids. length ids - 1) (duplicate_groups table))
             = sum_list (map (\<lambda>(keep_id, remove_ids). length remove_ids) (report d))"
    unfolding d(4) [symmetric] by (simp add: comp_def case_prod_unfold)
  have "d = \<lparr>jobs = table, total_removed = 0, report = report d\<rparr>"
    using d(2,3) by simp
  then have "remove_duplicates True table = Inr \<lparr>jobs = table, total_removed = 0, report = report d\<rparr>"
    using d(1) by simp
  moreover have "printed_total True table
       = Inr (sum_list (map (\<lambda>(keep_id, remove_ids). length remove_ids) (report d)))"
    using d(1) count by (simp add: printed_total_def)
  moreover have "total_removed s = sum_list (map (\<lambda>(keep_id, remove_ids). length remove_ids) (report d))"
    using s(2) count by (simp add: length_concat_tl)
  ultimately show ?thesis using d(4) s(1) same by blast
qed

section \<open>Groups and the rows a sweep deletes\<close>

lemma set_group_members:
  "set (group_members table k) = {r \<in> set table. where_not_null r \<and> group_key r = k}"
  by (auto simp: group_members_def)

lemma removed_ids_iff:
  "i \<in> set (concat (map tl (duplicate_groups table)))
   \<longleftrightarrow> (\<exists>k. i \<in> set (tl (map row_id (group_members table k))))"
proof
  assume "i \<in> set (concat (map tl (duplicate_groups table)))"
  then show "\<exists>k. i \<in> set (tl (map row_id (group_members table k)))"
    by (auto simp: duplicate_groups_def simp del: split_paired_Ex)
next
  assume "\<exists>k. i \<in> set (tl (map row_id (group_members table k)))"
  then obtain k where k: "i \<in> set (tl (map row_id (group_members table k)))" by blast
  then have len: "length (map row_id (group_members table k)) > 1"
    by (cases "map row_id (group_members table k)") auto
  then obtain r where "r \<in> set (group_members table k)"
    by (cases "group_members table k") auto
  then have "k \<in> set (remdups (map group_key (filter where_not_null table)))"
    by (auto simp: set_group_members)
  then have "map row_id (group_members table k) \<in> set (duplicate_groups table)"
    using len by (auto simp: duplicate_groups_def)
  then show "i \<in> set (concat (map tl (duplicate_groups table)))"
    using k by auto
qed

lemma group_members_filter:
  "group_members (filter P table) k = filter P (group_members table k)"
proof -
  have "filter (\<lambda>r. group_key r = k) (filter where_not_null (filter P table))
        = filter P (filter (\<lambda>r. group_key r = k) (filter where_not_null table))"
    by (auto intro: filter_cong)
  then show ?thesis by (simp add: group_members_def filter_sort)
qed

lemma survivors_per_group:
  "length (filter (\<lambda>r. row_id r \<notin> set (concat (map tl (duplicate_groups table))))
             (group_members table k)) \<le> 1"
proof (cases "group_members table k")
  case Nil
  then show ?thesis by simp
next
  case (Cons x xs)
  have "row_id y \<in> set (concat (map tl (duplicate_groups table)))" if "y \<in> set xs" for y
    unfolding removed_ids_iff using that Cons by (intro exI [of _ k]) simp
  then have "filter (\<lambda>r. row_id r \<notin> set (concat (map tl (duplicate_groups table)))) xs = []"
    by (simp add: filter_empty_conv)
  then show ?thesis using Cons by simp
qed

lemma no_groups_after_sweep:
  "duplicate_groups (filter (\<lambda>r. row_id r \<notin> set (concat (map tl (duplicate_groups table)))) table)
   = []"
  unfolding duplicate_groups_def [of "filter _ table"] filter_empty_conv
  using survivors_per_group [of table]
  by (auto simp: group_members_filter not_less)

text \<open>
  Claim C4.  A real run returns normally, and a second real run on the table it leaves
  finds no group with more than one row: it deletes nothing, returns 0 and leaves that
  table as it is.
\<close>

theorem sweep_idempotent:
  "\<exists>s. remove_duplicates False table = Inr s
      \<and> remove_duplicates False (jobs s) = Inr \<lparr>jobs = jobs s, total_removed = 0, report = []\<rparr>"
proof -
  obtain s where s: "remove_duplicates False table = Inr s"
      "jobs s = filter (\<lambda>r. row_id r \<notin> set (concat (map tl (duplicate_groups table)))) table"
    using remove_duplicates_result [of False table] by auto
  have "duplicate_groups (jobs s) = []"
    unfolding s(2) by (rule no_groups_after_sweep)
  then have "remove_duplicates False (jobs s) = Inr \<lparr>jobs = jobs s, total_removed = 0, report = []\<rparr>"
    by (simp add: remove_duplicates_def)
  then show ?thesis using s(1) by blast
qed

section \<open>The sweep on a table with unique ids\<close>

lemma in_set_tl: "x \<in> set (tl xs) \<Longrightarrow> x \<in> set xs"
  by (cases xs) auto

lemma same_id_same_group:
  assumes "distinct (map row_id table)"
    and "i \<in> set (map row_id (group_members table k))"
    and "i \<in> set (map row_id (group_members table k'))"
  shows "k = k'"
proof -
  from assms(2,3) obtain y y' where y: "y \<in> set table" "where_not_null y" "group_key y = k" "row_id y = i"
    and y': "y' \<in> set table" "where_not_null y'" "group_key y' = k'" "row_id y' = i"
    by (auto simp: set_group_members)
  have "inj_on row_id (set table)"
    using assms(1) by (simp add: distinct_map)
  then have "y = y'" using y y' by (auto dest: inj_onD)
  then show ?thesis using y y' by simp
qed

lemma distinct_group_ids:
  assumes "distinct (map row_id table)"
  shows "distinct (map row_id (group_members table k))"
proof -
  have "distinct table" "inj_on row_id (set table)"
    using assms by (simp_all add: distinct_map)
  then have "distinct (group_members table k)" "inj_on row_id (set (group_members table k))"
    by (auto simp: group_members_def intro: inj_on_subset)
  then show ?thesis by (simp add: distinct_map)
qed

lemma group_tail_cases:
  assumes "ys \<in> set (map tl (duplicate_groups table))"
  obtains k where "ys = tl (map row_id (group_members table k))"
  using assms by (auto simp: duplicate_groups_def simp del: split_paired_Ex)

lemma distinct_removed_ids:
  assumes "distinct (map row_id table)"
  shows "distinct (concat (map tl (duplicate_groups table)))"
proof (rule distinct_concat)
  let ?g = "\<lambda>k. map row_id (group_members table k)"
  let ?ks = "filter (\<lambda>k. length (?g k) > 1) (remdups (map group_key (filter where_not_null table)))"
  have groups: "map tl (duplicate_groups table) = map (\<lambda>k. tl (?g k)) ?ks"
    by (simp add: duplicate_groups_def filter_map comp_def)
  have "inj_on (\<lambda>k. tl (?g k)) (set ?ks)"
  proof (rule inj_onI)
    fix k k' assume k: "k \<in> set ?ks" and k': "k' \<in> set ?ks" and eq: "tl (?g k) = tl (?g k')"
    from k have "tl (?g k) \<noteq> []" by (cases "?g k") auto
    then obtain i where "i \<in> set (tl (?g k))" by (cases "tl (?g k)") auto
    then have "i \<in> set (?g k)" "i \<in> set (?g k')"
      using eq in_set_tl [of i "?g k"] in_set_tl [of i "?g k'"] by simp_all
    then show "k = k'" by (rule same_id_same_group [OF assms])
  qed
  then show "distinct (map tl (duplicate_groups table))"
    unfolding groups by (simp add: distinct_map)
next
  fix ys assume "ys \<in> set (map tl (duplicate_groups table))"
  then obtain k where "ys = tl (map row_id (group_members table k))"
    by (rule group_tail_cases)
  then show "distinct ys"
    using distinct_group_ids [OF assms, of k] by (simp add: distinct_tl)
next
  fix ys zs assume ys: "ys \<in> set (map tl (duplicate_groups table))"
    and zs: "zs \<in> set (map tl (duplicate_groups table))" and "ys \<noteq> zs"
  from ys obtain k where k1: "ys = tl (map row_id (group_members table k))"
    by (rule group_tail_cases)
  from zs obtain k' where k2: "zs = tl (map row_id (group_members table k'))"
    by (rule group_tail_cases)
  note k = k1 k2
  show "set ys \<inter> set zs = {}"
  proof (rule ccontr)
    assume "set ys \<inter> set zs \<noteq> {}"
    then obtain i where "i \<in> set ys" "i \<in> set zs" by blast
    then have "i \<in> set (map row_id (group_members table k))"
        "i \<in> set (map row_id (group_members table k'))"
      unfolding k by (blast intro: in_set_tl)+
    then have "k = k'" by (rule same_id_same_group [OF assms])
    then show False using k \<open>ys \<noteq> zs\<close> by simp
  qed
qed

lemma removed_ids_in_table:
  "set (concat (map tl (duplicate_groups table))) \<subseteq> set (map row_id table)"
proof
  fix i assume "i \<in> set (concat (map tl (duplicate_groups table)))"
  then obtain k where "i \<in> set (tl (map row_id (group_members table k)))"
    unfolding removed_ids_iff by blast
  then have "i \<in> set (map row_id (group_members table k))"
    by (rule in_set_tl)
  then show "i \<in> set (map row_id table)"
    by (auto simp: set_group_members)
qed

lemma count_deleted:
  assumes "distinct (map f t)" "distinct L" "set L \<subseteq> set (map f t)"
  shows "length (filter (\<lambda>r. f r \<notin> set L) t) + length L = length t"
proof -
  have "length (filter (\<lambda>r. f r \<in> set L) t) = length (filter (\<lambda>i. i \<in> set L) (map f t))"
    by (simp add: filter_map comp_def)
  also have "\<dots> = card ({i. i \<in> set L} \<inter> set (map f t))"
    using assms(1) by (rule distinct_length_filter)
  also have "{i. i \<in> set L} \<inter> set (map f t) = set L"
    using assms(3) by auto
  also have "card (set L) = length L"
    using assms(2) by (rule distinct_card)
  finally have "length (filter (\<lambda>r. f r \<in> set L) t) = length L" .
  then show ?thesis
    using sum_length_filter_compl [of "\<lambda>r. f r \<in> set L" t] by simp
qed

lemma group_head_least:
  assumes "group_members table k = x # xs" "r \<in> set (group_members table k)"
  shows "first_seen x \<le> first_seen r"
proof -
  have "sorted (map first_seen (group_members table k))"
    by (simp add: group_members_def)
  then show ?thesis using assms by auto
qed

lemma keeper_survives:
  assumes "distinct (map row_id table)" "group_members table k = x # xs"
  shows "row_id x \<notin> set (concat (map tl (duplicate_groups table)))"
proof
  assume "row_id x \<in> set (concat (map tl (duplicate_groups table)))"
  then obtain k' where k': "row_id x \<in> set (tl (map row_id (group_members table k')))"
    unfolding removed_ids_iff by blast
  then have "row_id x \<in> set (map row_id (group_members table k'))"
    by (rule in_set_tl)
  moreover have "row_id x \<in> set (map row_id (group_members table k))"
    using assms(2) by simp
  ultimately have "k' = k"
    by (rule same_id_same_group [OF assms(1)])
  then have "row_id x \<in> set (map row_id xs)"
    using k' assms(2) by simp
  moreover have "distinct (map row_id (x # xs))"
    using distinct_group_ids [OF assms(1), of k] assms(2) by simp
  ultimately show False by simp
qed

text \<open>
  Claim C2, as the code has it.  On a table whose ids are unique, a real run returns
  normally, and so does the simple script with the same table and count.  The query
  selects the rows whose title, company and location are not NULL; the other rows are in
  no group and stay.  Of the selected rows with one key exactly one stays, and no row
  with that key was seen earlier: the others are deleted.  The remaining rows keep their
  order, and the returned count is the number of rows that are gone.
\<close>

theorem sweep_correct:
  assumes "distinct (map row_id table)"
  shows "\<exists>s. remove_duplicates False table = Inr s
      \<and> remove_duplicates_simple table = Inr (jobs s, total_removed s)
      \<and> subseq (jobs s) table
      \<and> length (jobs s) + total_removed s = length table
      \<and> (\<forall>r\<in>set table. \<not> where_not_null r \<longrightarrow> r \<in> set (jobs s))
      \<and> (\<forall>r\<in>set table. where_not_null r \<longrightarrow>
            (\<exists>keeper\<in>set (jobs s). where_not_null keeper \<and> group_key keeper = group_key r
                \<and> first_seen keeper \<le> first_seen r
                \<and> (\<forall>r'\<in>set (jobs s). where_not_null r' \<and> group_key r' = group_key r
                      \<longrightarrow> r' = keeper)))"
proof -
  let ?R = "set (concat (map tl (duplicate_groups table)))"
  obtain s where s: "remove_duplicates False table = Inr s"
      "jobs s = filter (\<lambda>r. row_id r \<notin> ?R) table"
      "total_removed s = length (concat (map tl (duplicate_groups table)))"
    using remove_duplicates_result [of False table] by auto
  have simple: "remove_duplicates_simple table = Inr (jobs s, total_removed s)"
    by (simp add: remove_duplicates_simple_eq s(1))
  have sub: "subseq (jobs s) table"
    unfolding s(2) by simp
  have count: "length (jobs s) + total_removed s = length table"
    unfolding s(2,3)
    by (rule count_deleted [OF assms distinct_removed_ids [OF assms] removed_ids_in_table])
  have outside: "r \<in> set (jobs s)" if r: "r \<in> set table" "\<not> where_not_null r" for r
  proof -
    have "row_id r \<notin> ?R"
    proof
      assume "row_id r \<in> ?R"
      then obtain k where "row_id r \<in> set (tl (map row_id (group_members table k)))"
        unfolding removed_ids_iff by blast
      then have "row_id r \<in> set (map row_id (group_members table k))"
        by (rule in_set_tl)
      then obtain y where y: "y \<in> set table" "where_not_null y" "row_id y = row_id r"
        by (auto simp: set_group_members)
      have "inj_on row_id (set table)"
        using assms by (simp add: distinct_map)
      then have "y = r" using y r(1) by (auto dest: inj_onD)
      then show False using y r(2) by simp
    qed
    then show ?thesis using r(1) by (simp add: s(2))
  qed
  have inside: "\<exists>keeper\<in>set (jobs s). where_not_null keeper \<and> group_key keeper = group_key r
                \<and> first_seen keeper \<le> first_seen r
                \<and> (\<forall>r'\<in>set (jobs s). where_not_null r' \<and> group_key r' = group_key r
                      \<longrightarrow> r' = keeper)"
    if r: "r \<in> set table" "where_not_null r" for r
  proof -
    have mem: "r \<in> set (group_members table (group_key r))"
      using r by (simp add: set_group_members)
    then obtain x xs where g: "group_members table (group_key r) = x # xs"
      by (cases "group_members table (group_key r)") auto
    then have "x \<in> set (group_members table (group_key r))" by simp
    then have x: "x \<in> set table" "where_not_null x" "group_key x = group_key r"
      by (simp_all add: set_group_members)
    have stays: "x \<in> set (jobs s)"
      using keeper_survives [OF assms g] x(1) by (simp add: s(2))
    have least: "first_seen x \<le> first_seen r"
      using g mem by (rule group_head_least)
    have only: "r' = x"
      if r': "r' \<in> set (jobs s)" "where_not_null r'" "group_key r' = group_key r" for r'
    proof (rule ccontr)
      assume "r' \<noteq> x"
      have "r' \<in> set (group_members table (group_key r))"
        using r' by (simp add: set_group_members s(2))
      then have "r' \<in> set xs" using g \<open>r' \<noteq> x\<close> by simp
      then have "row_id r' \<in> set (tl (map row_id (group_members table (group_key r))))"
        using g by simp
      then have "row_id r' \<in> ?R"
        unfolding removed_ids_iff by blast
      then show False using r'(1) by (simp add: s(2))
    qed
    show ?thesis
      using stays x(2,3) least only by blast
  qed
  show ?thesis
    using s(1) simple sub count outside inside by blast
qed

theorem sweep_correct_witness:
  "distinct (map row_id sweep_example)
   \<and> remove_duplicates False sweep_example
       = Inr \<lparr>jobs = [stored_row 10 ''a'' ''Auckland'' 1, stored_row 13 ''d'' ''Wellington'' 0],
              total_removed = 2, report = [(10, [11, 12])]\<rparr>
   \<and> remove_duplicates_simple sweep_example
       = Inr ([stored_row 10 ''a'' ''Auckland'' 1, stored_row 13 ''d'' ''Wellington'' 0], 2)"
proof -
  have d: "distinct (map row_id sweep_example)"
    by (simp add: sweep_example_def stored_row_def)
  have g: "duplicate_groups sweep_example = [[10, 11, 12]]"
    by (simp add: duplicate_groups_def group_members_def sweep_example_def stored_row_def
          where_not_null_def group_key_def)
  have run: "remove_duplicates False sweep_example
       = Inr \<lparr>jobs = [stored_row 10 ''a'' ''Auckland'' 1, stored_row 13 ''d'' ''Wellington'' 0],
              total_removed = 2, report = [(10, [11, 12])]\<rparr>"
    by (simp add: remove_duplicates_def g) (simp add: sweep_example_def stored_row_def)
  show ?thesis
    using sweep_correct [OF d] d run by auto
qed

text \<open>
  Claim C2, as stated, fails for a duplicate group whose rows have a NULL title: the
  query selects only rows with title, company and location, so two copies of one key
  whose title is NULL are both still there after a real run, which returns 0.
\<close>

theorem null_title_copies_stay:
  "distinct (map row_id untitled_rows)
   \<and> map group_key untitled_rows
       = [(None, Some ''Acme'', Some ''Auckland'', Some ''We need...''),
          (None, Some ''Acme'', Some ''Auckland'', Some ''We need...'')]
   \<and> remove_duplicates False untitled_rows
       = Inr \<lparr>jobs = untitled_rows, total_removed = 0, report = []\<rparr>"
  by (simp add: remove_duplicates_def duplicate_groups_def group_members_def untitled_rows_def
        stored_row_def where_not_null_def group_key_def)

section \<open>The upsert: what any call can change\<close>

text \<open>An update of the store that touches the rows satisfying \<open>P\<close>.\<close>

lemma frame_of_touch: "frame_of (touch now r) = frame_of r"
  by (simp add: frame_of_def touch_def)

lemma frame_touch_some:
  "map frame_of (map (\<lambda>r. if P r then touch now r else r) rs) = map frame_of rs"
  by (induction rs) (auto simp: frame_of_touch)

lemma dup_loop_update:
  assumes "dup_loop flt n now job_url desc_snippet dups d = Inr (Inl d')"
  shows "\<exists>i. d' = d\<lparr>rows := map (\<lambda>r. if row_id r = i then touch now r else r) (rows d)\<rparr>"
  using assms
proof (induction dups arbitrary: n)
  case Nil
  then show ?case by simp
next
  case (Cons dup dups)
  then show ?case
    by (auto split: if_splits list.splits)
qed

lemma try_body_cases:
  assumes "try_body flt now job d = Inr (is_new, d')"
  shows "(\<not> is_new \<and> (\<exists>P. d' = d\<lparr>rows := map (\<lambda>r. if P r then touch now r else r) (rows d)\<rparr>))
       \<or> (is_new \<and> d' = d\<lparr>rows := rows d @ [new_row now job (next_id d)],
                           next_id := next_id d + 1\<rparr>)"
proof (cases "getitem job ''url''")
  case (Inl e)
  then show ?thesis using assms by (simp add: try_body_def)
next
  case (Inr job_url)
  show ?thesis
  proof (cases "filter (\<lambda>r. eq_filter (url r) job_url) (rows d) \<noteq> []")
    case True
    then have "\<not> is_new"
        "d' = d\<lparr>rows := map (\<lambda>r. if eq_filter (url r) job_url then touch now r else r) (rows d)\<rparr>"
      using assms Inr by (auto simp: try_body_def split: if_splits)
    then show ?thesis
      by (intro disjI1 conjI exI [of _ "\<lambda>r. eq_filter (url r) job_url"])
  next
    case False
    let ?loop = "dup_loop flt 2 now job_url
        (take 200 (or_empty (dict_get_default job ''description'' (Some []))))
        (filter (\<lambda>r. eq_filter (title r) (dict_get job ''title'')
                    \<and> eq_filter (company r) (dict_get job ''company'')
                    \<and> eq_filter (location r) (dict_get job ''location'')) (rows d)) d"
    show ?thesis
    proof (cases ?loop)
      case (Inl e)
      then show ?thesis
        using assms Inr False by (simp add: try_body_def Let_def split: if_splits)
    next
      case loop: (Inr res)
      show ?thesis
      proof (cases res)
        case (Inl d1)
        then have "\<not> is_new" "d' = d1"
          using assms Inr False loop by (auto simp: try_body_def Let_def split: if_splits)
        moreover obtain i where
          "d1 = d\<lparr>rows := map (\<lambda>r. if row_id r = i then touch now r else r) (rows d)\<rparr>"
          using dup_loop_update [of flt 2 now job_url _ _ d d1] loop Inl by auto
        ultimately show ?thesis
          by (intro disjI1 conjI exI [of _ "\<lambda>r. row_id r = i"]) simp_all
      next
        case (Inr m)
        then show ?thesis
          using assms \<open>getitem job ''url'' = Inr job_url\<close> False loop
          by (auto simp: try_body_def Let_def split: if_splits)
      qed
    qed
  qed
qed

lemma upsert_cases:
  obtains (same) "insert_or_update_job flt now job d = (False, d)"
  | (touched) P where "insert_or_update_job flt now job d
        = (False, d\<lparr>rows := map (\<lambda>r. if P r then touch now r else r) (rows d)\<rparr>)"
  | (inserted) "insert_or_update_job flt now job d
        = (True, d\<lparr>rows := rows d @ [new_row now job (next_id d)], next_id := next_id d + 1\<rparr>)"
proof (cases "try_body flt now job d")
  case (Inl e)
  then show ?thesis using same by (simp add: insert_or_update_job_def)
next
  case (Inr res)
  obtain is_new d' where res: "res = (is_new, d')" by (cases res)
  from try_body_cases [OF Inr [unfolded res]] show ?thesis
    using touched inserted Inr res by (auto simp: insert_or_update_job_def)
qed

text \<open>
  Claim C9, as the code has it, for the upsert and the sweep.  Whatever a call of the
  upsert does (any candidate, any failure of the store), every row that was stored
  before is still there, in place, with every column other than \<^verbatim>\<open>last_seen\<close> and
  \<^verbatim>\<open>is_active\<close> as it was, \<^verbatim>\<open>first_seen\<close> among them.  The only other change is at most
  one appended row, the new record, whose \<^verbatim>\<open>first_seen\<close> is the time of the call.  A sweep
  deletes rows and changes none: what it leaves is a subsequence of the table.
\<close>

theorem update_frame:
  "map frame_of (take (length (rows d)) (rows (snd (insert_or_update_job flt now job d))))
     = map frame_of (rows d)
   \<and> (drop (length (rows d)) (rows (snd (insert_or_update_job flt now job d))) = []
      \<or> drop (length (rows d)) (rows (snd (insert_or_update_job flt now job d)))
           = [new_row now job (next_id d)])
   \<and> first_seen (new_row now job (next_id d)) = now
   \<and> (\<exists>s. remove_duplicates dry_run table = Inr s \<and> subseq (jobs s) table)"
proof -
  have sweep: "\<exists>s. remove_duplicates dry_run table = Inr s \<and> subseq (jobs s) table"
    using remove_duplicates_result [of dry_run table] by (cases dry_run) auto
  have fresh: "first_seen (new_row now job (next_id d)) = now"
    by (simp add: new_row_def)
  show ?thesis
  proof (cases flt now job d rule: upsert_cases)
    case same
    then show ?thesis using sweep fresh by simp
  next
    case (touched P)
    then show ?thesis using sweep fresh by (simp add: frame_touch_some frame_of_touch)
  next
    case inserted
    then show ?thesis using sweep fresh by simp
  qed
qed

text \<open>
  Claim C9, as stated, fails where it says that no later operation modifies
  \<^verbatim>\<open>first_seen\<close>: the migration's upsert on the url writes the \<^verbatim>\<open>first_seen\<close> of the SQLite
  row over the stored one.  The store has seen the url a at time 5; after migrating a
  SQLite row with that url, first seen at 1, the stored row 10 says 1.
\<close>

theorem migration_rewrites_first_seen:
  "map (\<lambda>r. (row_id r, first_seen r)) (rows seen_later) = [(10, 5)]
   \<and> map (\<lambda>r. (row_id r, first_seen r))
         (rows (migrate no_faults 100 [stored_row 1 ''a'' ''Auckland'' 1] seen_later))
       = [(10, 1)]"
  by (simp add: migrate_def flush_batch_def upsert_on_url_def no_faults_def seen_later_def
        stored_row_def overwrite_row_def)

section \<open>The upsert when the store fails\<close>

lemma dup_loop_agree:
  assumes "\<forall>m\<le>N. flt' m = flt m" "flt N" "n \<le> N"
  shows "dup_loop flt' n now job_url desc_snippet dups d
           = dup_loop flt n now job_url desc_snippet dups d
       \<and> (\<forall>m. dup_loop flt n now job_url desc_snippet dups d = Inr (Inr m) \<longrightarrow> m \<le> N)"
  using assms(3)
proof (induction dups arbitrary: n)
  case Nil
  then show ?case by simp
next
  case (Cons dup dups)
  have same: "flt' n = flt n" using assms(1) Cons.prems by simp
  show ?case
  proof (cases "flt n")
    case True
    then show ?thesis using same by simp
  next
    case False
    then have "n \<noteq> N" using assms(2) by blast
    then have next_le: "n + 1 \<le> N" using Cons.prems by simp
    then have same': "flt' (n + 1) = flt (n + 1)" using assms(1) by simp
    show ?thesis
      using False same same' Cons.IH [OF next_le]
      by (auto split: list.splits)
  qed
qed

lemma try_body_agree:
  assumes "\<forall>m\<le>N. flt' m = flt m" "flt N"
  shows "try_body flt' now job d = try_body flt now job d"
proof (cases "getitem job ''url''")
  case (Inl e)
  then show ?thesis by (simp add: try_body_def)
next
  case (Inr job_url)
  have f0: "flt' 0 = flt 0" using assms(1) by simp
  show ?thesis
  proof (cases "flt 0")
    case True
    then show ?thesis using f0 Inr by (simp add: try_body_def)
  next
    case no0: False
    then have "N \<noteq> 0" using assms(2) by (metis)
    then have N1: "1 \<le> N" by simp
    then have f1: "flt' 1 = flt 1" using assms(1) by simp
    show ?thesis
    proof (cases "flt 1")
      case True
      then show ?thesis using f0 f1 Inr by (simp add: try_body_def Let_def)
    next
      case no1: False
      then have "N \<noteq> 1" using assms(2) by metis
      then have N2: "2 \<le> N" using N1 by simp
      let ?snip = "take 200 (or_empty (dict_get_default job ''description'' (Some [])))"
      let ?dups = "filter (\<lambda>r. eq_filter (title r) (dict_get job ''title'')
                    \<and> eq_filter (company r) (dict_get job ''company'')
                    \<and> eq_filter (location r) (dict_get job ''location'')) (rows d)"
      have loop: "dup_loop flt' 2 now job_url ?snip ?dups d = dup_loop flt 2 now job_url ?snip ?dups d"
        and bound: "\<And>m. dup_loop flt 2 now job_url ?snip ?dups d = Inr (Inr m) \<Longrightarrow> flt' m = flt m"
        using dup_loop_agree [OF assms N2, of now job_url ?snip ?dups d] assms(1) by auto
      show ?thesis
        using f0 f1 no0 no1 Inr loop bound
        by (auto simp: try_body_def Let_def split: sum.splits)
    qed
  qed
qed

text \<open>
  Claim C8, as the code has it.  Any exception in the body (a failure of the store at a
  lookup or at the write, a missing url) is caught: the call returns \<^verbatim>\<open>False\<close>, the value
  it also returns for an update, and the store is as it was, so the next candidate is
  processed as if the failed call had not been made.  Nothing is asked again after the
  first failing request: the outcome is the same whatever the store would answer later.
\<close>

theorem failure_isolated:
  "(try_body flt now job d = Inl e \<longrightarrow>
       insert_or_update_job flt now job d = (False, d)
       \<and> insert_or_update_job flt2 now2 job2 (snd (insert_or_update_job flt now job d))
           = insert_or_update_job flt2 now2 job2 d)
   \<and> (job ''url'' \<noteq> None \<and> flt 0 \<longrightarrow> try_body flt now job d = Inl PersistenceError)
   \<and> (flt n \<and> (\<forall>m\<le>n. flt' m = flt m) \<longrightarrow>
       insert_or_update_job flt' now job d = insert_or_update_job flt now job d)"
proof (intro conjI impI)
  assume "try_body flt now job d = Inl e"
  then show fail: "insert_or_update_job flt now job d = (False, d)"
    by (simp add: insert_or_update_job_def)
  then show "insert_or_update_job flt2 now2 job2 (snd (insert_or_update_job flt now job d))
           = insert_or_update_job flt2 now2 job2 d"
    by simp
next
  assume h: "job ''url'' \<noteq> None \<and> flt 0"
  then obtain v where "job ''url'' = Some v" by blast
  then show "try_body flt now job d = Inl PersistenceError"
    using h by (simp add: try_body_def getitem_def)
next
  assume "flt n \<and> (\<forall>m\<le>n. flt' m = flt m)"
  then have agree: "\<forall>m\<le>n. flt' m = flt m" and fails: "flt n"
    by (rule conjunct2, rule conjunct1)
  have "try_body flt' now job d = try_body flt now job d"
    by (rule try_body_agree [OF agree fails])
  then show "insert_or_update_job flt' now job d = insert_or_update_job flt now job d"
    by (simp add: insert_or_update_job_def)
qed

theorem failure_isolated_witness:
  "try_body first_request_fails 7 (candidate ''c'') twice_stored = Inl PersistenceError
   \<and> candidate ''c'' ''url'' \<noteq> None \<and> first_request_fails 0
   \<and> insert_or_update_job first_request_fails 7 (candidate ''c'') twice_stored = (False, twice_stored)
   \<and> insert_or_update_job no_faults 8 (candidate ''a'')
        (snd (insert_or_update_job first_request_fails 7 (candidate ''c'') twice_stored))
       = insert_or_update_job no_faults 8 (candidate ''a'') twice_stored
   \<and> insert_or_update_job every_request_fails 7 (candidate ''c'') twice_stored
       = insert_or_update_job first_request_fails 7 (candidate ''c'') twice_stored"
proof -
  have u: "candidate ''c'' ''url'' \<noteq> None" and f: "first_request_fails 0"
    by (simp_all add: candidate_def first_request_fails_def)
  have a: "\<forall>m\<le>0. every_request_fails m = first_request_fails m"
    by (simp add: every_request_fails_def first_request_fails_def)
  note inst = failure_isolated [of first_request_fails 7 "candidate ''c''" twice_stored
      PersistenceError no_faults 8 "candidate ''a''" 0 every_request_fails]
  have body: "try_body first_request_fails 7 (candidate ''c'') twice_stored = Inl PersistenceError"
    using inst u f by blast
  have "insert_or_update_job first_request_fails 7 (candidate ''c'') twice_stored = (False, twice_stored)"
      "insert_or_update_job no_faults 8 (candidate ''a'')
        (snd (insert_or_update_job first_request_fails 7 (candidate ''c'') twice_stored))
       = insert_or_update_job no_faults 8 (candidate ''a'') twice_stored"
    using inst body by blast+
  moreover have "insert_or_update_job every_request_fails 7 (candidate ''c'') twice_stored
       = insert_or_update_job first_request_fails 7 (candidate ''c'') twice_stored"
    using inst f a by blast
  ultimately show ?thesis using body u f by blast
qed

text \<open>
  Claim C8, as stated, fails where it says the failure can be told from success: a call
  at which the store fails and a call that updates a stored row both return \<^verbatim>\<open>False\<close>.
\<close>

theorem failure_looks_like_update:
  "try_body first_request_fails 7 (candidate ''c'') twice_stored = Inl PersistenceError
   \<and> try_body no_faults 7 (candidate ''a'') twice_stored
       = Inr (False, twice_stored\<lparr>rows := [touch 7 (stored_row 10 ''a'' ''Auckland'' 1),
                                          stored_row 11 ''b'' ''Auckland'' 2]\<rparr>)
   \<and> fst (insert_or_update_job first_request_fails 7 (candidate ''c'') twice_stored)
       = fst (insert_or_update_job no_faults 7 (candidate ''a'') twice_stored)"
  by (simp add: insert_or_update_job_def try_body_def getitem_def candidate_def
        first_request_fails_def twice_stored_def no_faults_def Let_def eq_filter_def py_str_def
        stored_row_def)

section \<open>The upsert when the store answers\<close>

lemma select_by_id:
  "distinct (map row_id rs) \<Longrightarrow> dup \<in> set rs \<Longrightarrow> filter (\<lambda>r. row_id r = row_id dup) rs = [dup]"
proof (induction rs)
  case Nil
  then show ?case by simp
next
  case (Cons r rs)
  show ?case
  proof (cases "r = dup")
    case True
    then have "\<forall>x\<in>set rs. row_id x \<noteq> row_id dup"
      using Cons.prems(1) by (auto simp: image_iff)
    then have "filter (\<lambda>r. row_id r = row_id dup) rs = []"
      by (simp add: filter_empty_conv)
    then show ?thesis using True by simp
  next
    case False
    then have "dup \<in> set rs" using Cons.prems(2) by simp
    then have "row_id r \<noteq> row_id dup"
      using Cons.prems(1) by (auto simp: image_iff)
    then show ?thesis
      using Cons.IH Cons.prems(1) \<open>dup \<in> set rs\<close> by simp
  qed
qed

lemma update_by_id:
  assumes "distinct (map row_id rs)" "dup \<in> set rs"
  shows "map (\<lambda>r. if row_id r = row_id dup then f r else r) rs
       = map (\<lambda>r. if r = dup then f r else r) rs"
proof (rule map_cong [OF refl])
  fix r assume "r \<in> set rs"
  then have "row_id r = row_id dup \<longleftrightarrow> r = dup"
    using assms by (auto simp: distinct_map dest: inj_onD)
  then show "(if row_id r = row_id dup then f r else r) = (if r = dup then f r else r)"
    by simp
qed

lemma dup_loop_no_faults:
  assumes "distinct (map row_id (rows d))" "set dups \<subseteq> set (rows d)"
    and "\<forall>r\<in>set dups. url r \<noteq> None" "job_url \<noteq> None"
  shows "dup_loop no_faults n now job_url desc_snippet dups d
       = (case find (\<lambda>r. take 200 (or_empty (description r)) = desc_snippet) dups of
            Some dup \<Rightarrow> Inr (Inl (d\<lparr>rows := map (\<lambda>r. if r = dup then touch now r else r) (rows d)\<rparr>))
          | None \<Rightarrow> Inr (Inr (n + length dups)))"
  using assms(2,3)
proof (induction dups arbitrary: n)
  case Nil
  then show ?case by simp
next
  case (Cons dup dups)
  then have mem: "dup \<in> set (rows d)" and u: "url dup \<noteq> None" by auto
  have sel: "filter (\<lambda>r. row_id r = row_id dup) (rows d) = [dup]"
    using assms(1) mem by (rule select_by_id)
  have upd: "map (\<lambda>r. if row_id r = row_id dup then touch now r else r) (rows d)
           = map (\<lambda>r. if r = dup then touch now r else r) (rows d)"
    using assms(1) mem by (rule update_by_id)
  have IH: "dup_loop no_faults (Suc n) now job_url desc_snippet dups d
       = (case find (\<lambda>r. take 200 (or_empty (description r)) = desc_snippet) dups of
            Some dup \<Rightarrow> Inr (Inl (d\<lparr>rows := map (\<lambda>r. if r = dup then touch now r else r) (rows d)\<rparr>))
          | None \<Rightarrow> Inr (Inr (Suc (n + length dups))))"
    using Cons.IH [of "Suc n"] Cons.prems by (auto split: option.splits)
  have nf: "\<not> no_faults m" for m
    by (simp add: no_faults_def)
  show ?case
  proof (cases "take 200 (or_empty (description dup)) = desc_snippet")
    case True
    then show ?thesis
      using sel upd u assms(4) unfolding no_faults_def by simp
  next
    case False
    then show ?thesis
      using sel IH unfolding no_faults_def by (simp split: option.splits)
  qed
qed

lemma find_filter: "find P (filter Q xs) = find (\<lambda>x. Q x \<and> P x) xs"
  by (induction xs) auto

lemma or_empty_default: "or_empty (dict_get_default job k (Some [])) = or_empty (dict_get job k)"
  by (simp add: or_empty_def dict_get_default_def dict_get_def split: option.splits)

text \<open>The three paths of a call, on a store with unique ids and no NULL url, for a
  candidate that has a url.\<close>

lemma upsert_no_faults:
  assumes "db_ok d" "job ''url'' = Some (Some u)"
  shows "insert_or_update_job no_faults now job d
       = (if \<exists>r\<in>set (rows d). url_match job r
          then (False, d\<lparr>rows := map (\<lambda>r. if url_match job r then touch now r else r) (rows d)\<rparr>)
          else case find (content_match job) (rows d) of
                 Some dup \<Rightarrow>
                   (False, d\<lparr>rows := map (\<lambda>r. if r = dup then touch now r else r) (rows d)\<rparr>)
               | None \<Rightarrow>
                   (True, d\<lparr>rows := rows d @ [new_row now job (next_id d)],
                            next_id := next_id d + 1\<rparr>))"
proof -
  have get: "getitem job ''url'' = Inr (Some u)" "dict_get job ''url'' = Some u"
    using assms(2) by (simp_all add: getitem_def dict_get_def)
  have nf: "\<not> no_faults m" for m
    by (simp add: no_faults_def)
  show ?thesis
  proof (cases "\<exists>r\<in>set (rows d). url_match job r")
    case True
    then have "filter (\<lambda>r. eq_filter (url r) (Some u)) (rows d) \<noteq> []"
      by (auto simp: url_match_def get filter_empty_conv)
    then show ?thesis
      using True by (simp add: insert_or_update_job_def try_body_def get no_faults_def url_match_def)
  next
    case False
    then have none: "filter (\<lambda>r. eq_filter (url r) (Some u)) (rows d) = []"
      by (auto simp: url_match_def get filter_empty_conv)
    let ?snip = "take 200 (or_empty (dict_get_default job ''description'' (Some [])))"
    let ?dups = "filter (\<lambda>r. eq_filter (title r) (dict_get job ''title'')
                    \<and> eq_filter (company r) (dict_get job ''company'')
                    \<and> eq_filter (location r) (dict_get job ''location'')) (rows d)"
    have ok: "distinct (map row_id (rows d))" "\<forall>r\<in>set ?dups. url r \<noteq> None"
      using assms(1) by (auto simp: db_ok_def list_all_iff)
    have loop: "dup_loop no_faults 2 now (Some u) ?snip ?dups d
       = (case find (\<lambda>r. take 200 (or_empty (description r)) = ?snip) ?dups of
            Some dup \<Rightarrow> Inr (Inl (d\<lparr>rows := map (\<lambda>r. if r = dup then touch now r else r) (rows d)\<rparr>))
          | None \<Rightarrow> Inr (Inr (2 + length ?dups)))"
      by (rule dup_loop_no_faults [OF ok(1) _ ok(2)]) simp_all
    have same: "find (\<lambda>r. take 200 (or_empty (description r)) = ?snip) ?dups
              = find (content_match job) (rows d)"
      unfolding find_filter or_empty_default
      by (rule find_cong [OF refl]) (auto simp: content_match_def)
    have body: "try_body no_faults now job d
       = (case dup_loop no_faults 2 now (Some u) ?snip ?dups d of
            Inl e \<Rightarrow> Inl e
          | Inr (Inl d') \<Rightarrow> Inr (False, d')
          | Inr (Inr n) \<Rightarrow>
              Inr (True, d\<lparr>rows := rows d @ [new_row now job (next_id d)],
                            next_id := next_id d + 1\<rparr>))"
      using none unfolding no_faults_def by (simp add: try_body_def get Let_def split: sum.splits)
    show ?thesis
      using False unfolding insert_or_update_job_def body loop same
      by (simp split: option.splits)
  qed
qed

section \<open>Candidates with a missing field\<close>

lemma with_details_fields:
  "k \<noteq> ''description'' \<Longrightarrow> with_details full_description job k = job k"
  by (simp add: with_details_def)

lemma online_skipped:
  assumes "\<not> truthy (dict_get parsed ''title'') \<or> \<not> truthy (dict_get parsed ''url'')"
  shows "online_upsert lflt flt now full_description parsed d = Inr (False, d)"
  using assms
  by (auto simp: online_upsert_def parse_job_card_return_def process_job_def Let_def)

lemma online_inserted:
  assumes title: "truthy (dict_get parsed ''title'')"
    and u: "parsed ''url'' = Some (Some u)" "u \<noteq> []"
    and ok: "db_ok d" and answers: "\<not> lflt 0"
    and new: "list_all (\<lambda>r. \<not> same_job (with_details full_description parsed) r) (rows d)"
  shows "online_upsert lflt no_faults now full_description parsed d
       = Inr (True, d\<lparr>rows := rows d @ [new_row now (with_details full_description parsed) (next_id d)],
                       next_id := next_id d + 1\<rparr>)"
proof -
  let ?job = "with_details full_description parsed"
  have job_url: "?job ''url'' = Some (Some u)"
    using u(1) by (simp add: with_details_fields)
  have get: "dict_get parsed ''url'' = Some u" "dict_get ?job ''url'' = Some u"
    using u(1) job_url by (simp_all add: dict_get_def)
  have none: "\<not> (\<exists>r\<in>set (rows d). url_match ?job r)"
      "find (content_match ?job) (rows d) = None"
    using new by (auto simp: list_all_iff same_job_def find_None_iff)
  then have "filter (\<lambda>r. eq_filter (url r) (Some u)) (rows d) = []"
    by (auto simp: filter_empty_conv url_match_def get)
  then have "process_job lflt no_faults now full_description parsed d
           = Inr (insert_or_update_job no_faults now ?job d)"
    using u(2) answers by (simp add: process_job_def get truthy_def)
  moreover have "insert_or_update_job no_faults now ?job d
       = (True, d\<lparr>rows := rows d @ [new_row now ?job (next_id d)], next_id := next_id d + 1\<rparr>)"
    using upsert_no_faults [of d ?job u now, OF ok job_url] none by simp
  ultimately show ?thesis
    using title by (simp add: online_upsert_def parse_job_card_return_def)
qed

text \<open>
  Claim C7, as the code has it.  On the online path a candidate without title is dropped
  by the parser and a candidate without url is skipped by the loop: neither reaches the
  store, nothing is written.  Company and location are not required.  A candidate with
  title and url whose job is not stored is inserted when the store answers, with the
  company it has (NULL when the card has none) and the location it has (the empty text
  when the card has none).
\<close>

theorem missing_field_online:
  "(\<not> truthy (dict_get parsed ''title'') \<or> \<not> truthy (dict_get parsed ''url'')
      \<longrightarrow> online_upsert lflt flt now full_description parsed d = Inr (False, d))
   \<and> (truthy (dict_get parsed ''title'') \<and> parsed ''url'' = Some (Some u) \<and> u \<noteq> []
        \<and> db_ok d \<and> \<not> lflt 0
        \<and> list_all (\<lambda>r. \<not> same_job (with_details full_description parsed) r) (rows d)
      \<longrightarrow> online_upsert lflt no_faults now full_description parsed d
            = Inr (True,
                d\<lparr>rows := rows d @ [new_row now (with_details full_description parsed) (next_id d)],
                   next_id := next_id d + 1\<rparr>)
          \<and> company (new_row now (with_details full_description parsed) (next_id d))
              = dict_get parsed ''company''
          \<and> location (new_row now (with_details full_description parsed) (next_id d))
              = dict_get_default parsed ''location'' (Some []))"
proof (intro conjI impI)
  assume "\<not> truthy (dict_get parsed ''title'') \<or> \<not> truthy (dict_get parsed ''url'')"
  then show "online_upsert lflt flt now full_description parsed d = Inr (False, d)"
    by (rule online_skipped)
next
  assume h: "truthy (dict_get parsed ''title'') \<and> parsed ''url'' = Some (Some u) \<and> u \<noteq> []
        \<and> db_ok d \<and> \<not> lflt 0
        \<and> list_all (\<lambda>r. \<not> same_job (with_details full_description parsed) r) (rows d)"
  then have "truthy (dict_get parsed ''title'')" "parsed ''url'' = Some (Some u)" "u \<noteq> []"
      "db_ok d" "\<not> lflt 0"
      "list_all (\<lambda>r. \<not> same_job (with_details full_description parsed) r) (rows d)"
    by simp_all
  then show "online_upsert lflt no_faults now full_description parsed d
            = Inr (True,
                d\<lparr>rows := rows d @ [new_row now (with_details full_description parsed) (next_id d)],
                   next_id := next_id d + 1\<rparr>)"
    by (rule online_inserted)
next
  show "company (new_row now (with_details full_description parsed) (next_id d))
        = dict_get parsed ''company''"
    by (simp add: new_row_def dict_get_def with_details_fields)
next
  show "location (new_row now (with_details full_description parsed) (next_id d))
        = dict_get_default parsed ''location'' (Some [])"
    by (simp add: new_row_def dict_get_default_def with_details_fields)
qed

theorem missing_field_online_witness:
  "\<not> truthy (dict_get urlless_card ''url'')
   \<and> online_upsert no_faults no_faults 7 None urlless_card twice_stored = Inr (False, twice_stored)
   \<and> truthy (dict_get companyless_card ''title'')
   \<and> companyless_card ''url'' = Some (Some ''a'') \<and> ''a'' \<noteq> []
   \<and> db_ok empty_db \<and> \<not> no_faults 0
   \<and> list_all (\<lambda>r. \<not> same_job (with_details None companyless_card) r) (rows empty_db)
   \<and> online_upsert no_faults no_faults 7 None companyless_card empty_db
       = Inr (True, empty_db\<lparr>rows := rows empty_db
                                  @ [new_row 7 (with_details None companyless_card) (next_id empty_db)],
                              next_id := next_id empty_db + 1\<rparr>)
   \<and> company (new_row (7::nat) (with_details None companyless_card) (next_id empty_db)) = None"
proof -
  have a: "\<not> truthy (dict_get urlless_card ''url'')"
    by (simp add: truthy_def dict_get_def urlless_card_def)
  have t: "truthy (dict_get companyless_card ''title'')"
    by (simp add: truthy_def dict_get_def companyless_card_def)
  have u: "companyless_card ''url'' = Some (Some ''a'')" "''a'' \<noteq> []"
    by (simp_all add: companyless_card_def)
  have ok: "db_ok empty_db"
    by (simp add: db_ok_def empty_db_def)
  have nf: "\<not> no_faults 0"
    by (simp add: no_faults_def)
  have new: "list_all (\<lambda>r. \<not> same_job (with_details None companyless_card) r) (rows empty_db)"
    by (simp add: empty_db_def)
  have c: "dict_get companyless_card ''company'' = None"
    by (simp add: dict_get_def companyless_card_def)
  note skip = missing_field_online [of urlless_card no_faults no_faults 7 None twice_stored,
      THEN conjunct1]
  note ins = missing_field_online [of companyless_card no_faults no_faults 7 None empty_db "''a''",
      THEN conjunct2]
  have s1: "online_upsert no_faults no_faults 7 None urlless_card twice_stored = Inr (False, twice_stored)"
    by (rule skip [THEN mp]) (simp add: a)
  have hyps: "truthy (dict_get companyless_card ''title'') \<and> companyless_card ''url'' = Some (Some ''a'')
      \<and> ''a'' \<noteq> [] \<and> db_ok empty_db \<and> \<not> no_faults 0
      \<and> list_all (\<lambda>r. \<not> same_job (with_details None companyless_card) r) (rows empty_db)"
    using t u ok nf new by (intro conjI)
  note both = ins [THEN mp, OF hyps]
  have s2: "online_upsert no_faults no_faults 7 None companyless_card empty_db
       = Inr (True, empty_db\<lparr>rows := rows empty_db
                                  @ [new_row 7 (with_details None companyless_card) (next_id empty_db)],
                              next_id := next_id empty_db + 1\<rparr>)"
    by (rule both [THEN conjunct1])
  have s3: "company (new_row (7::nat) (with_details None companyless_card) (next_id empty_db)) = None"
    using both [THEN conjunct2, THEN conjunct1] by (simp only: c)
  show ?thesis
    using a s1 t u ok nf new s2 s3 by (intro conjI)
qed

text \<open>
  Claim C7, as stated, fails for a candidate without company: the parser returns it, the
  loop passes it on, and on the empty store it is inserted with a NULL company.
\<close>

theorem missing_company_inserted:
  "companyless_card ''company'' = None
   \<and> parse_job_card_return companyless_card = Some companyless_card
   \<and> fst (insert_or_update_job no_faults 7 (with_details None companyless_card) empty_db) = True
   \<and> map company (rows (snd (insert_or_update_job no_faults 7
                                  (with_details None companyless_card) empty_db))) = [None]
   \<and> online_upsert no_faults no_faults 7 None companyless_card empty_db
       = Inr (insert_or_update_job no_faults 7 (with_details None companyless_card) empty_db)"
  by (simp add: online_upsert_def parse_job_card_return_def process_job_def truthy_def
        with_details_def insert_or_update_job_def try_body_def getitem_def companyless_card_def
        empty_db_def no_faults_def Let_def dict_get_def new_row_def)

section \<open>The same job under another url\<close>

lemma touch_same_job [simp]:
  "url_match job (touch now r) = url_match job r"
  "content_match job (touch now r) = content_match job r"
  "same_job job (touch now r) = same_job job r"
  by (simp_all add: url_match_def content_match_def same_job_def touch_def)






section \<open>The same candidate twice\<close>

















end
